theory Spec2Isabelle
  imports Main "HOL-Library.Word"
begin

unbundle bit_operations_syntax

section \<open>Envelope generator (rate counter model)\<close>

text \<open>
  The register types \<open>reg8\<close>, \<open>reg12\<close>, \<open>reg16\<close>, \<open>reg24\<close> of the engine are C
  \<open>unsigned int\<close>, wider than the registers they hold, and \<open>cycle_count\<close> is \<open>int\<close>;
  every mask of the source is written out. Bus bytes and the registers of the waveform
  generator, whose clock multiplies a cycle count by the frequency, are 32 bit words.
  The counters of the envelope generator are only compared, incremented and masked; they
  are integers here. The four rate and level selectors are \<open>reg4\<close> values, written only
  through \<open>& 0x0f\<close>, and index the 16 entry tables.
\<close>

type_synonym reg8 = "32 word"
type_synonym reg12 = "32 word"
type_synonym reg16 = "32 word"
type_synonym reg24 = "32 word"
type_synonym reg4 = "4 word"
type_synonym cycle_count = int

datatype env_state = ATTACK | DECAY_SUSTAIN | RELEASE

record EnvelopeGenerator =
  rate_counter :: int
  exponential_counter :: int
  envelope_counter :: int
  attack :: "4 word"
  decay :: "4 word"
  sustain :: "4 word"
  release :: "4 word"
  gate :: bool
  state :: env_state

definition env_reset :: "EnvelopeGenerator \<Rightarrow> EnvelopeGenerator" where
  "env_reset e = e\<lparr>envelope_counter := 0, attack := 0, decay := 0, sustain := 0,
     release := 0, gate := False, rate_counter := 0, exponential_counter := 0,
     state := RELEASE\<rparr>"

definition rate_counter_period :: "int list" where
  "rate_counter_period =
     [9, 32, 63, 95, 149, 220, 267, 313, 392, 977, 1954, 3126, 3906, 11720, 19532, 31252]"

definition exponential_counter_level :: "int list" where
  "exponential_counter_level = [0x5d, 0x36, 0x1a, 0x0e, 0x06, 0x00]"

text \<open>The segment table, one row of the source (eight counter values) per inner list.\<close>

definition exponential_counter_segment :: "nat list" where
  "exponential_counter_segment = concat
    [[5, 5, 5, 5, 5, 5, 5, 4],
     [4, 4, 4, 4, 4, 4, 4, 3],
     [3, 3, 3, 3, 3, 3, 3, 3],
     [3, 3, 3, 2, 2, 2, 2, 2],
     [2, 2, 2, 2, 2, 2, 2, 2],
     [2, 2, 2, 2, 2, 2, 2, 2],
     [2, 2, 2, 2, 2, 2, 2, 1],
     [1, 1, 1, 1, 1, 1, 1, 1],
     [1, 1, 1, 1, 1, 1, 1, 1],
     [1, 1, 1, 1, 1, 1, 1, 1],
     [1, 1, 1, 1, 1, 1, 1, 1],
     [1, 1, 1, 1, 1, 1, 0, 0],
     [0, 0, 0, 0, 0, 0, 0, 0],
     [0, 0, 0, 0, 0, 0, 0, 0],
     [0, 0, 0, 0, 0, 0, 0, 0],
     [0, 0, 0, 0, 0, 0, 0, 0],
     [0, 0, 0, 0, 0, 0, 0, 0],
     [0, 0, 0, 0, 0, 0, 0, 0],
     [0, 0, 0, 0, 0, 0, 0, 0],
     [0, 0, 0, 0, 0, 0, 0, 0],
     [0, 0, 0, 0, 0, 0, 0, 0],
     [0, 0, 0, 0, 0, 0, 0, 0],
     [0, 0, 0, 0, 0, 0, 0, 0],
     [0, 0, 0, 0, 0, 0, 0, 0],
     [0, 0, 0, 0, 0, 0, 0, 0],
     [0, 0, 0, 0, 0, 0, 0, 0],
     [0, 0, 0, 0, 0, 0, 0, 0],
     [0, 0, 0, 0, 0, 0, 0, 0],
     [0, 0, 0, 0, 0, 0, 0, 0],
     [0, 0, 0, 0, 0, 0, 0, 0],
     [0, 0, 0, 0, 0, 0, 0, 0],
     [0, 0, 0, 0, 0, 0, 0, 0]]"

definition exponential_counter_period :: "int list" where
  "exponential_counter_period = [1, 2, 4, 8, 16, 30]"

definition sustain_level :: "int list" where
  "sustain_level = [0x00, 0x11, 0x22, 0x33, 0x44, 0x55, 0x66, 0x77,
                    0x88, 0x99, 0xaa, 0xbb, 0xcc, 0xdd, 0xee, 0xff]"

text \<open>Register writes. The argument is the byte on the bus, passed as a \<open>reg8\<close>.\<close>

definition env_writeCONTROL_REG :: "reg8 \<Rightarrow> EnvelopeGenerator \<Rightarrow> EnvelopeGenerator" where
  "env_writeCONTROL_REG control e =
     (let gate_next = (control AND 0x01 \<noteq> 0);
          e1 = (if \<not> gate e \<and> gate_next
                then e\<lparr>state := ATTACK, exponential_counter := 0\<rparr>
                else if gate e \<and> \<not> gate_next
                then e\<lparr>state := RELEASE, exponential_counter := 0\<rparr>
                else e)
      in e1\<lparr>gate := gate_next\<rparr>)"

definition writeATTACK_DECAY :: "reg8 \<Rightarrow> EnvelopeGenerator \<Rightarrow> EnvelopeGenerator" where
  "writeATTACK_DECAY attack_decay e =
     e\<lparr>attack := ucast (drop_bit 4 attack_decay AND 0x0f),
       decay := ucast (attack_decay AND 0x0f)\<rparr>"

definition writeSUSTAIN_RELEASE :: "reg8 \<Rightarrow> EnvelopeGenerator \<Rightarrow> EnvelopeGenerator" where
  "writeSUSTAIN_RELEASE sustain_release e =
     e\<lparr>sustain := ucast (drop_bit 4 sustain_release AND 0x0f),
       release := ucast (sustain_release AND 0x0f)\<rparr>"

definition env_output :: "EnvelopeGenerator \<Rightarrow> int" where
  "env_output e = envelope_counter e"

definition readENV :: "EnvelopeGenerator \<Rightarrow> int" where
  "readENV e = env_output e"

text \<open>
  The \<open>while (delta_t)\<close> loop of \<open>step_envelope\<close>. The loop state is the current
  \<open>rate_step\<close>, the steps taken so far and the cycles left; the result is the returned
  number of steps, the updated \<open>delta_t\<close> (a reference parameter) and the generator.
  Each pass that does not return sets \<open>rate_counter = 0\<close>, subtracts \<open>rate_step\<close> from
  \<open>delta_t\<close>, reloads \<open>rate_step\<close> with the rate period and increments the exponential
  counter, which is zeroed when it equals the exponential period.
\<close>

function step_envelope_loop ::
  "int \<Rightarrow> 4 word \<Rightarrow> nat \<Rightarrow> int \<Rightarrow> int \<Rightarrow> int \<Rightarrow> EnvelopeGenerator
     \<Rightarrow> int \<times> int \<times> EnvelopeGenerator" where
  "step_envelope_loop delta_envelope_max rate_period_index exponential_period_index
       rate_step delta_envelope delta_t e =
     (if delta_t = 0 then (delta_envelope, delta_t, e)
      else if delta_t < rate_step then
        (delta_envelope, 0, e\<lparr>rate_counter := (rate_counter e + delta_t) AND 0x7fff\<rparr>)
      else if exponential_counter e + 1 = exponential_counter_period ! exponential_period_index
      then
        (if delta_envelope_max \<noteq> 0
         then (if delta_envelope + 1 = delta_envelope_max
               then (delta_envelope + 1, delta_t - rate_step,
                     e\<lparr>rate_counter := 0, exponential_counter := 0\<rparr>)
               else step_envelope_loop delta_envelope_max rate_period_index
                      exponential_period_index (rate_counter_period ! unat rate_period_index)
                      (delta_envelope + 1) (delta_t - rate_step)
                      (e\<lparr>rate_counter := 0, exponential_counter := 0\<rparr>))
         else step_envelope_loop delta_envelope_max rate_period_index
                exponential_period_index (rate_counter_period ! unat rate_period_index)
                delta_envelope (delta_t - rate_step)
                (e\<lparr>rate_counter := 0, exponential_counter := 0\<rparr>))
      else step_envelope_loop delta_envelope_max rate_period_index
             exponential_period_index (rate_counter_period ! unat rate_period_index)
             delta_envelope (delta_t - rate_step)
             (e\<lparr>rate_counter := 0, exponential_counter := exponential_counter e + 1\<rparr>))"
  by pat_completeness auto

lemma rate_counter_period_pos: "0 < rate_counter_period ! unat (i :: 4 word)"
proof -
  have "unat i < 16" using unsigned_less [of i] by simp
  moreover have "\<forall>n < 16. 0 < rate_counter_period ! n"
    by (simp add: rate_counter_period_def All_less_Suc numeral_eq_Suc)
  ultimately show ?thesis by blast
qed

termination step_envelope_loop
proof (relation "measure (\<lambda>(m, i, x, rate_step, d, delta_t, e).
          if rate_step \<le> 0 then nat (delta_t - rate_step) + 1 else nat delta_t)",
       goal_cases)
  case 1
  show ?case by simp
next
  case (2 m i x rs d dt e)
  then show ?case using rate_counter_period_pos [of i] by auto
next
  case (3 m i x rs d dt e)
  then show ?case using rate_counter_period_pos [of i] by auto
next
  case (4 m i x rs d dt e)
  then show ?case using rate_counter_period_pos [of i] by auto
qed

declare step_envelope_loop.simps [simp del]

definition step_envelope ::
  "int \<Rightarrow> 4 word \<Rightarrow> nat \<Rightarrow> int \<Rightarrow> EnvelopeGenerator \<Rightarrow> int \<times> int \<times> EnvelopeGenerator" where
  "step_envelope delta_envelope_max rate_period_index exponential_period_index delta_t e =
     (let rate_period = rate_counter_period ! unat rate_period_index;
          rate_step = (if rate_counter e < rate_period
                       then rate_period - rate_counter e
                       else 0x8000 + rate_period - rate_counter e)
      in step_envelope_loop delta_envelope_max rate_period_index exponential_period_index
           rate_step 0 delta_t e)"

text \<open>
  The loops of \<open>clock\<close> call \<open>step_envelope\<close> until \<open>delta_t\<close> is used up. They end
  because a call made with a rate counter inside its 15 bits consumes at least one cycle,
  and any call leaves the rate counter inside its 15 bits.
\<close>

definition good_rc :: "EnvelopeGenerator \<Rightarrow> bool" where
  "good_rc e \<longleftrightarrow> 0 \<le> rate_counter e \<and> rate_counter e \<le> 0x7fff"

lemma good_rc_envelope_counter_update [simp]:
  "good_rc (e\<lparr>envelope_counter := v\<rparr>) = good_rc e"
  by (simp add: good_rc_def)

lemma and_7fff_bounds: "0 \<le> (x::int) AND 0x7fff \<and> x AND 0x7fff \<le> 0x7fff"
  by (simp add: AND_upper2)

lemma step_envelope_loop_good:
  "good_rc e \<or> dt \<noteq> 0 \<Longrightarrow> step_envelope_loop m i x rs d dt e = (d', dt', e') \<Longrightarrow> good_rc e'"
proof (induction m i x rs d dt e rule: step_envelope_loop.induct)
  case (1 m i x rs d dt e)
  from "1.prems"(2) show ?case
    apply (subst (asm) step_envelope_loop.simps)
    using "1.prems"(1) "1.IH" and_7fff_bounds [of "rate_counter e + dt"]
    apply (auto simp: good_rc_def Let_def split: if_splits)
    done
qed

lemma step_envelope_loop_dt:
  "0 < rs \<Longrightarrow> 0 \<le> dt \<Longrightarrow> step_envelope_loop m i x rs d dt e = (d', dt', e') \<Longrightarrow> 0 \<le> dt' \<and> dt' \<le> dt"
proof (induction m i x rs d dt e rule: step_envelope_loop.induct)
  case (1 m i x rs d dt e)
  from "1.prems"(3) show ?case
    apply (subst (asm) step_envelope_loop.simps)
    using "1.prems"(1,2) "1.IH" rate_counter_period_pos [of i]
    apply (auto simp: Let_def split: if_splits)
    done
qed

lemma step_envelope_loop_progress:
  assumes "0 < rs" "dt \<noteq> 0" "step_envelope_loop m i x rs d dt e = (d', dt', e')"
  shows "nat \<bar>dt'\<bar> < nat \<bar>dt\<bar>"
proof (cases "dt < rs")
  case True
  with assms show ?thesis
    by (subst (asm) step_envelope_loop.simps) auto
next
  case False
  with assms(1) have pos: "0 \<le> dt - rs" "dt - rs < dt" by auto
  have "0 \<le> dt' \<and> dt' \<le> dt - rs"
    using assms(2,3) False pos(1) rate_counter_period_pos [of i]
    apply (subst (asm) step_envelope_loop.simps)
    apply (auto split: if_splits dest: step_envelope_loop_dt [rotated 2])
    done
  with pos show ?thesis by auto
qed

lemma step_envelope_good:
  "dt \<noteq> 0 \<Longrightarrow> step_envelope m i x dt e = (d', dt', e') \<Longrightarrow> good_rc e'"
  unfolding step_envelope_def Let_def by (rule step_envelope_loop_good) auto

lemma step_envelope_progress:
  assumes "good_rc e" "dt \<noteq> 0" "step_envelope m i x dt e = (d', dt', e')"
  shows "nat \<bar>dt'\<bar> < nat \<bar>dt\<bar>"
proof -
  let ?p = "rate_counter_period ! unat i"
  let ?rs = "if rate_counter e < ?p then ?p - rate_counter e else 0x8000 + ?p - rate_counter e"
  have "0 < ?rs" using assms(1) rate_counter_period_pos [of i] by (auto simp: good_rc_def)
  moreover have "step_envelope_loop m i x ?rs 0 dt e = (d', dt', e')"
    using assms(3) by (simp add: step_envelope_def Let_def)
  ultimately show ?thesis using assms(2) step_envelope_loop_progress by blast
qed

text \<open>The \<open>while (delta_t)\<close> loop of the decay/sustain state.\<close>

function decay_sustain_loop :: "int \<Rightarrow> EnvelopeGenerator \<Rightarrow> EnvelopeGenerator" where
  "decay_sustain_loop delta_t e =
     (if delta_t = 0 then e
      else
        (let segment = exponential_counter_segment ! nat (envelope_counter e);
             min_level0 = exponential_counter_level ! segment;
             min_level = (if min_level0 < sustain_level ! unat (sustain e)
                          then sustain_level ! unat (sustain e) else min_level0);
             delta_envelope_max0 = envelope_counter e - min_level;
             delta_envelope_max = (if delta_envelope_max0 < 0 then envelope_counter e
                                   else delta_envelope_max0)
         in case step_envelope delta_envelope_max (decay e) segment delta_t e of
              (delta_envelope, delta_t', e') \<Rightarrow>
                decay_sustain_loop delta_t'
                  (e'\<lparr>envelope_counter := envelope_counter e' - delta_envelope\<rparr>)))"
  by pat_completeness auto
termination
proof (relation "measures [\<lambda>(dt, e). if good_rc e then 0 else 1, \<lambda>(dt, e). nat \<bar>dt\<bar>]",
       goal_cases)
  case 1
  show ?case by simp
next
  case (2 dt e seg ml0 ml dm0 dm de r dt' e')
  then have eq: "step_envelope dm (decay e) seg dt e = (de, dt', e')" by simp
  from step_envelope_good [OF 2(1) eq] have g: "good_rc e'" .
  show ?case
  proof (cases "good_rc e")
    case True
    from step_envelope_progress [OF True 2(1) eq] g True show ?thesis
      by simp
  next
    case False
    with g show ?thesis by simp
  qed
qed

text \<open>The \<open>while (delta_t)\<close> loop of the release state.\<close>

function release_loop :: "int \<Rightarrow> EnvelopeGenerator \<Rightarrow> EnvelopeGenerator" where
  "release_loop delta_t e =
     (if delta_t = 0 then e
      else
        (let segment = exponential_counter_segment ! nat (envelope_counter e);
             min_level = exponential_counter_level ! segment;
             delta_envelope_max = envelope_counter e - min_level
         in case step_envelope delta_envelope_max (release e) segment delta_t e of
              (delta_envelope, delta_t', e') \<Rightarrow>
                release_loop delta_t'
                  (e'\<lparr>envelope_counter := envelope_counter e' - delta_envelope\<rparr>)))"
  by pat_completeness auto
termination
proof (relation "measures [\<lambda>(dt, e). if good_rc e then 0 else 1, \<lambda>(dt, e). nat \<bar>dt\<bar>]",
       goal_cases)
  case 1
  show ?case by simp
next
  case (2 dt e seg ml dm de r dt' e')
  then have eq: "step_envelope dm (release e) seg dt e = (de, dt', e')" by simp
  from step_envelope_good [OF 2(1) eq] have g: "good_rc e'" .
  show ?case
  proof (cases "good_rc e")
    case True
    from step_envelope_progress [OF True 2(1) eq] g True show ?thesis
      by simp
  next
    case False
    with g show ?thesis by simp
  qed
qed

declare decay_sustain_loop.simps [simp del] release_loop.simps [simp del]

text \<open>\<open>EnvelopeGenerator::clock\<close>.\<close>

definition env_clock :: "int \<Rightarrow> EnvelopeGenerator \<Rightarrow> EnvelopeGenerator" where
  "env_clock delta_t e =
     (if state e = ATTACK then
        (case step_envelope (0xff - envelope_counter e) (attack e) 0 delta_t e of
           (delta_envelope, delta_t', e') \<Rightarrow>
             (let e1 = e'\<lparr>envelope_counter := envelope_counter e' + delta_envelope\<rparr>
              in if envelope_counter e1 \<noteq> 0xff then e1
                 else decay_sustain_loop delta_t' (e1\<lparr>state := DECAY_SUSTAIN\<rparr>)))
      else if state e = DECAY_SUSTAIN then decay_sustain_loop delta_t e
      else release_loop delta_t e)"



section \<open>Waveform generator\<close>

text \<open>
  The pointers \<open>sync_source\<close> and \<open>sync_dest\<close> are fixed at construction; the
  functions that read through them take the other generator as an argument.
\<close>

record WaveformGenerator =
  msb_rising :: bool
  accumulator :: reg24
  shift_register :: reg24
  freq :: reg16
  pw :: reg12
  waveform :: reg8
  test :: bool
  ring_mod :: bool
  sync :: bool

definition writeFREQ_LO :: "reg8 \<Rightarrow> WaveformGenerator \<Rightarrow> WaveformGenerator" where
  "writeFREQ_LO freq_lo w = w\<lparr>freq := (freq w AND 0xff00) OR (freq_lo AND 0x00ff)\<rparr>"

definition writeFREQ_HI :: "reg8 \<Rightarrow> WaveformGenerator \<Rightarrow> WaveformGenerator" where
  "writeFREQ_HI freq_hi w =
     w\<lparr>freq := (push_bit 8 freq_hi AND 0xff00) OR (freq w AND 0x00ff)\<rparr>"

definition writePW_LO :: "reg8 \<Rightarrow> WaveformGenerator \<Rightarrow> WaveformGenerator" where
  "writePW_LO pw_lo w = w\<lparr>pw := (pw w AND 0xf00) OR (pw_lo AND 0x0ff)\<rparr>"

definition writePW_HI :: "reg8 \<Rightarrow> WaveformGenerator \<Rightarrow> WaveformGenerator" where
  "writePW_HI pw_hi w = w\<lparr>pw := (push_bit 8 pw_hi AND 0xf00) OR (pw w AND 0x0ff)\<rparr>"

definition wave_writeCONTROL_REG :: "reg8 \<Rightarrow> WaveformGenerator \<Rightarrow> WaveformGenerator" where
  "wave_writeCONTROL_REG control w =
     (let w1 = w\<lparr>waveform := drop_bit 4 control AND 0x0f,
                  ring_mod := (control AND 0x04 \<noteq> 0),
                  sync := (control AND 0x02 \<noteq> 0)\<rparr>;
          test_next = (control AND 0x08 \<noteq> 0);
          w2 = (if test_next then w1\<lparr>accumulator := 0, shift_register := 0\<rparr>
                else if test w1 then w1\<lparr>shift_register := 0x7ffff8\<rparr>
                else w1)
      in w2\<lparr>test := test_next\<rparr>)"

definition wave_reset :: "WaveformGenerator \<Rightarrow> WaveformGenerator" where
  "wave_reset w = w\<lparr>accumulator := 0, shift_register := 0x7ffff8, freq := 0, pw := 0,
     test := False, ring_mod := False, sync := False, msb_rising := False\<rparr>"

text \<open>One pass of the loop that shifts the noise register.\<close>

definition shift_noise :: "reg24 \<Rightarrow> reg24" where
  "shift_noise sr =
     (let bit0 = (drop_bit 22 sr XOR drop_bit 17 sr) AND 0x1
      in (push_bit 1 sr AND 0x7fffff) OR bit0)"

definition wave_clock :: "cycle_count \<Rightarrow> WaveformGenerator \<Rightarrow> WaveformGenerator" where
  "wave_clock delta_t w =
     (if test w then w
      else
        (let delta_accumulator = word_of_int delta_t * freq w;
             accumulator_next = accumulator w + delta_accumulator;
             shift_period = 0x100000;
             shifts0 = delta_accumulator div shift_period;
             accumulator_prev = accumulator w + shift_period * shifts0;
             shifts = (if accumulator_prev AND 0x080000 = 0
                            \<and> accumulator_next AND 0x080000 \<noteq> 0
                       then shifts0 + 1 else shifts0)
         in w\<lparr>shift_register := (shift_noise ^^ unat shifts) (shift_register w),
              msb_rising := (accumulator w AND 0x800000 = 0
                               \<and> accumulator_next AND 0x800000 \<noteq> 0),
              accumulator := accumulator_next AND 0xffffff\<rparr>))"

text \<open>\<open>synchronize\<close>; the first argument is the generator \<open>sync_source\<close> points to.\<close>

definition synchronize :: "WaveformGenerator \<Rightarrow> WaveformGenerator \<Rightarrow> WaveformGenerator" where
  "synchronize sync_source w =
     (if sync w \<and> msb_rising sync_source then w\<lparr>accumulator := 0\<rparr> else w)"

section \<open>External filter\<close>

text \<open>
  The coefficients are compile time constants, computed by the constructor of
  \<open>ExternalFilterCoefficients\<close> from \<open>w0lp = 100000\<close>, \<open>w0hp = 100\<close> and the period
  \<open>T\<close>: the shift is \<open>log2 (15 / (1 - exp (- w0 * T)))\<close> cut to an integer and the
  multiplier is \<open>(1 - exp (- w0 * T)) * 2 ^ shift + 0.5\<close> cut to an integer. For
  \<open>T = 1e-6\<close> this gives the shifts 7 and 17 and the multipliers 12 and 13, for
  \<open>T = 10e-6\<close> the shifts 4 and 13 and the multipliers 10 and 8.
\<close>

record ExternalFilterCoefficients =
  shiftlp :: nat
  shifthp :: nat
  mullp :: int
  mulhp :: int

definition t1 :: ExternalFilterCoefficients where
  "t1 = \<lparr>shiftlp = 7, shifthp = 17, mullp = 12, mulhp = 13\<rparr>"

definition tmax :: ExternalFilterCoefficients where
  "tmax = \<lparr>shiftlp = 4, shifthp = 13, mullp = 10, mulhp = 8\<rparr>"

definition MAX_CYCLES :: cycle_count where
  "MAX_CYCLES = 10"

text \<open>
  The states are C \<open>int\<close>s holding 27 bit values; \<open>>>\<close> on them is the arithmetic
  shift, \<open>div\<close> by a power of two on integers. The input \<open>vi\<close> and the result of
  \<open>output\<close> are \<open>short\<close>, 16 bit words read as signed numbers.
\<close>

record ExternalFilter =
  enabled :: bool
  vlp :: int
  vhp :: int

definition extfilt_step ::
  "ExternalFilterCoefficients \<Rightarrow> 16 word \<Rightarrow> ExternalFilter \<Rightarrow> ExternalFilter" where
  "extfilt_step c vi f =
     (let vhp1 = vhp f + (mulhp c * (vlp f - vhp f)) div 2 ^ shifthp c;
          vlp1 = vlp f + (mullp c * (sint vi * 2 ^ 11 - vlp f)) div 2 ^ shiftlp c
      in f\<lparr>vhp := vhp1, vlp := vlp1\<rparr>)"

text \<open>\<open>clock(short vi)\<close>, one cycle.\<close>

definition extfilt_clock1 :: "16 word \<Rightarrow> ExternalFilter \<Rightarrow> ExternalFilter" where
  "extfilt_clock1 vi f =
     (if \<not> enabled f then f\<lparr>vlp := sint vi * 2 ^ 11, vhp := 0\<rparr>
      else extfilt_step t1 vi f)"

text \<open>
  The inner loop \<open>while (delta_t--) clock(vi)\<close>. It is entered with
  \<open>delta_t < MAX_CYCLES\<close>; a negative count, which no caller passes, would run the C loop
  through the whole range of \<open>int\<close> and is cut off here.
\<close>

function extfilt_single_loop :: "cycle_count \<Rightarrow> 16 word \<Rightarrow> ExternalFilter \<Rightarrow> ExternalFilter" where
  "extfilt_single_loop delta_t vi f =
     (if delta_t \<le> 0 then f else extfilt_single_loop (delta_t - 1) vi (extfilt_clock1 vi f))"
  by pat_completeness auto
termination
  by (relation "measure (\<lambda>(delta_t, vi, f). nat delta_t)") auto

text \<open>The outer loop \<open>while (delta_t)\<close> of \<open>clock(cycle_count delta_t, short vi)\<close>.\<close>

function extfilt_loop :: "cycle_count \<Rightarrow> 16 word \<Rightarrow> ExternalFilter \<Rightarrow> ExternalFilter" where
  "extfilt_loop delta_t vi f =
     (if delta_t = 0 then f
      else if delta_t < MAX_CYCLES then extfilt_single_loop delta_t vi f
      else extfilt_loop (delta_t - MAX_CYCLES) vi (extfilt_step tmax vi f))"
  by pat_completeness auto
termination
  by (relation "measure (\<lambda>(delta_t, vi, f). nat delta_t)") (auto simp: MAX_CYCLES_def)

declare extfilt_single_loop.simps [simp del] extfilt_loop.simps [simp del]

definition extfilt_clock :: "cycle_count \<Rightarrow> 16 word \<Rightarrow> ExternalFilter \<Rightarrow> ExternalFilter" where
  "extfilt_clock delta_t vi f =
     (if \<not> enabled f then f\<lparr>vlp := sint vi * 2 ^ 11, vhp := 0\<rparr>
      else extfilt_loop delta_t vi f)"

definition extfilt_output :: "ExternalFilter \<Rightarrow> 16 word" where
  "extfilt_output f = word_of_int ((vlp f - vhp f) div 2 ^ 11)"


section \<open>The chip: voices, reset, clocking and output\<close>

text \<open>
  Modelled from the spec: the class \<open>Voice\<close> (voice.h is not among the sources). A voice
  owns one waveform generator and one envelope generator; its reset resets both, and a
  write to its CONTROL register goes to both, the gate bit being handled by the envelope
  generator.
\<close>

record Voice =
  wave :: WaveformGenerator
  envelope :: EnvelopeGenerator

definition voice_reset :: "Voice \<Rightarrow> Voice" where
  "voice_reset v = v\<lparr>wave := wave_reset (wave v), envelope := env_reset (envelope v)\<rparr>"

definition voice_writeCONTROL_REG :: "reg8 \<Rightarrow> Voice \<Rightarrow> Voice" where
  "voice_writeCONTROL_REG control v =
     v\<lparr>wave := wave_writeCONTROL_REG control (wave v),
       envelope := env_writeCONTROL_REG control (envelope v)\<rparr>"

text \<open>
  Modelled from the spec: the class \<open>Filter\<close> (filter.h is not among the sources). Its
  state is the three integers \<open>Vhp\<close>, \<open>Vbp\<close>, \<open>Vlp\<close> and the flag \<open>bypass\<close> that
  \<open>SID::clock\<close> reads; after a reset the filter states are zero. The filter's own clock
  and the output of a voice, which \<open>SID::clock\<close> calls, are parameters of the model.
\<close>

record Filter =
  bypass :: bool
  Vhp :: int
  Vbp :: int
  Vlp :: int

definition filter_reset :: "Filter \<Rightarrow> Filter" where
  "filter_reset f = f\<lparr>Vhp := 0, Vbp := 0, Vlp := 0\<rparr>"

text \<open>
  The constructor wires the generators into a ring: the sync source of voice 1 is voice 3,
  of voice 2 voice 1, of voice 3 voice 2; the sync destination of voice 1 is voice 2, of
  voice 2 voice 3, of voice 3 voice 1.
\<close>

record SID =
  voice1 :: Voice
  voice2 :: Voice
  voice3 :: Voice
  sid_filter :: Filter

definition SID_reset :: "SID \<Rightarrow> SID" where
  "SID_reset s = s\<lparr>voice1 := voice_reset (voice1 s), voice2 := voice_reset (voice2 s),
     voice3 := voice_reset (voice3 s), sid_filter := filter_reset (sid_filter s)\<rparr>"

text \<open>Division of C integers, which rounds towards zero.\<close>

definition c_div :: "int \<Rightarrow> int \<Rightarrow> int" where
  "c_div a b = (if (a < 0) = (b < 0) then \<bar>a\<bar> div \<bar>b\<bar> else - (\<bar>a\<bar> div \<bar>b\<bar>))"

text \<open>
  \<open>SID::output\<close>; the argument is the value of \<open>filter.output()\<close>. With a
  \<open>bits\<close> argument the divisor can be zero, and \<open>2 << bits\<close> leaves the range of
  \<open>int\<close> from 30 bits on; the result is then undefined in C and \<open>None\<close> here.
\<close>

definition SID_output :: "int \<Rightarrow> int" where
  "SID_output filter_output = c_div (- filter_output) (c_div (4095*255*3*15*2) 65536)"

definition SID_output_bits :: "nat \<Rightarrow> int \<Rightarrow> int option" where
  "SID_output_bits bits filter_output =
     (if 30 \<le> bits \<or> c_div (4095*255*3*15*2) (push_bit bits 2) = 0 then None
      else Some (c_div (- filter_output) (c_div (4095*255*3*15*2) (push_bit bits 2))))"

text \<open>
  One pass of the loop that looks for the next toggle of an accumulator MSB: the first
  argument is the generator \<open>sync_dest\<close> points to, the last the minimum so far. The
  distance is a nonzero 24 bit quantity, so the quotient keeps its value as a
  \<open>cycle_count\<close>.
\<close>

definition next_toggle ::
  "WaveformGenerator \<Rightarrow> WaveformGenerator \<Rightarrow> cycle_count \<Rightarrow> cycle_count" where
  "next_toggle sync_dest w delta_t_min =
     (if \<not> (freq w \<noteq> 0 \<and> (sync sync_dest \<or> ring_mod sync_dest)) then delta_t_min
      else
        (let delta_accumulator =
               (if accumulator w AND 0x800000 \<noteq> 0 then 0x1000000 else 0x800000)
                 - accumulator w;
             delta_t_next0 = uint (delta_accumulator div freq w);
             delta_t_next = (if delta_accumulator mod freq w \<noteq> 0
                             then delta_t_next0 + 1 else delta_t_next0)
         in if delta_t_next < delta_t_min then delta_t_next else delta_t_min))"

lemma toggle_distance_nonzero: "(if accumulator w AND 0x800000 \<noteq> 0 then 0x1000000 else 0x800000)
              - accumulator w \<noteq> (0::32 word)"
proof (cases "accumulator w AND 0x800000 = 0")
  case True
  have "accumulator w \<noteq> 0x800000"
  proof
    assume "accumulator w = 0x800000"
    with True show False by simp
  qed
  with True show ?thesis by simp
next
  case False
  have "accumulator w \<noteq> 0x1000000"
  proof
    assume "accumulator w = 0x1000000"
    with False show False by simp
  qed
  with False show ?thesis by simp
qed

lemma uint_div_pos: "0 < uint (x div y)" if "x mod y = 0" "x \<noteq> 0" for x y :: "32 word"
proof -
  have "x div y \<noteq> 0" using that by (metis div_mult_mod_eq add.right_neutral mult_zero_left)
  then show ?thesis by (simp add: word_greater_zero_iff uint_0_iff less_le)
qed

lemma next_toggle_pos: "0 < delta_t_min \<Longrightarrow> 0 < next_toggle d w delta_t_min"
  using toggle_distance_nonzero [of w] uint_div_pos by (auto simp: next_toggle_def Let_def intro: add_nonneg_pos)

text \<open>The loop \<open>while (delta_t_osc > 0)\<close> that clocks and synchronizes the oscillators.\<close>

function osc_loop :: "cycle_count \<Rightarrow> SID \<Rightarrow> SID" where
  "osc_loop delta_t_osc s =
     (if delta_t_osc > 0 then
        (let w1 = wave (voice1 s); w2 = wave (voice2 s); w3 = wave (voice3 s);
             delta_t_min = next_toggle w1 w3 (next_toggle w3 w2 (next_toggle w2 w1 delta_t_osc));
             c1 = wave_clock delta_t_min w1;
             c2 = wave_clock delta_t_min w2;
             c3 = wave_clock delta_t_min w3;
             y1 = synchronize c3 c1;
             y2 = synchronize y1 c2;
             y3 = synchronize y2 c3
         in osc_loop (delta_t_osc - delta_t_min)
              (s\<lparr>voice1 := (voice1 s)\<lparr>wave := y1\<rparr>,
                 voice2 := (voice2 s)\<lparr>wave := y2\<rparr>,
                 voice3 := (voice3 s)\<lparr>wave := y3\<rparr>\<rparr>))
      else s)"
  by pat_completeness auto
termination
proof (relation "measure (\<lambda>(delta_t_osc, s). nat delta_t_osc)", goal_cases)
  case 1
  show ?case by simp
next
  case (2 delta_t_osc s w1 w2 w3 delta_t_min c1 c2 c3 y1 y2 y3)
  then have "0 < delta_t_min" by (simp add: next_toggle_pos)
  with 2(1) show ?case by simp
qed

declare osc_loop.simps [simp del]

text \<open>
  The loop \<open>while (delta_t > 0)\<close> of \<open>SID::clock\<close>; \<open>delta_t_flt\<close> is loop state. It
  is positive whenever the loop runs, since it starts as 8 or as the positive \<open>delta_t\<close>
  and is only ever lowered to a positive \<open>delta_t\<close>; the model returns where it is not,
  which \<open>SID::clock\<close> never reaches.
\<close>

function SID_clock_loop ::
  "(cycle_count \<Rightarrow> int \<Rightarrow> int \<Rightarrow> int \<Rightarrow> Filter \<Rightarrow> Filter) \<Rightarrow> (Voice \<Rightarrow> int)
     \<Rightarrow> cycle_count \<Rightarrow> cycle_count \<Rightarrow> SID \<Rightarrow> SID" where
  "SID_clock_loop filter_clock voice_output delta_t_flt0 delta_t s =
     (if delta_t > 0 then
        (let delta_t_flt = (if delta_t < delta_t_flt0 then delta_t else delta_t_flt0);
             s1 = s\<lparr>voice1 := (voice1 s)\<lparr>envelope := env_clock delta_t_flt (envelope (voice1 s))\<rparr>,
                    voice2 := (voice2 s)\<lparr>envelope := env_clock delta_t_flt (envelope (voice2 s))\<rparr>,
                    voice3 := (voice3 s)\<lparr>envelope := env_clock delta_t_flt (envelope (voice3 s))\<rparr>\<rparr>;
             s2 = osc_loop delta_t_flt s1;
             s3 = s2\<lparr>sid_filter := filter_clock delta_t_flt (voice_output (voice1 s2))
                         (voice_output (voice2 s2)) (voice_output (voice3 s2)) (sid_filter s2)\<rparr>
         in if delta_t_flt \<le> 0 then s3
            else SID_clock_loop filter_clock voice_output delta_t_flt (delta_t - delta_t_flt) s3)
      else s)"
  by pat_completeness auto
termination
  by (relation "measure (\<lambda>(fc, vo, delta_t_flt0, delta_t, s). nat delta_t)") auto

declare SID_clock_loop.simps [simp del]

definition SID_clock ::
  "(cycle_count \<Rightarrow> int \<Rightarrow> int \<Rightarrow> int \<Rightarrow> Filter \<Rightarrow> Filter) \<Rightarrow> (Voice \<Rightarrow> int)
     \<Rightarrow> cycle_count \<Rightarrow> SID \<Rightarrow> SID" where
  "SID_clock filter_clock voice_output delta_t s =
     (if delta_t = 0 then s
      else SID_clock_loop filter_clock voice_output
             (if bypass (sid_filter s) then delta_t else 8) delta_t s)"


text \<open>
  The constructors call \<open>reset\<close>. The generators below are the ones a constructor
  leaves on memory that held zeros.
\<close>

definition EnvelopeGenerator_new :: EnvelopeGenerator where
  "EnvelopeGenerator_new = env_reset \<lparr>rate_counter = 0, exponential_counter = 0,
     envelope_counter = 0, attack = 0, decay = 0, sustain = 0, release = 0, gate = False,
     state = RELEASE\<rparr>"

definition WaveformGenerator_new :: WaveformGenerator where
  "WaveformGenerator_new = wave_reset \<lparr>msb_rising = False, accumulator = 0,
     shift_register = 0, freq = 0, pw = 0, waveform = 0, test = False, ring_mod = False,
     sync = False\<rparr>"

definition Voice_new :: Voice where
  "Voice_new = \<lparr>wave = WaveformGenerator_new, envelope = EnvelopeGenerator_new\<rparr>"

definition SID_new :: SID where
  "SID_new = \<lparr>voice1 = Voice_new, voice2 = Voice_new, voice3 = Voice_new,
     sid_filter = \<lparr>bypass = False, Vhp = 0, Vbp = 0, Vlp = 0\<rparr>\<rparr>"

text \<open>What a reset leaves in a voice.\<close>

definition voice_is_reset :: "Voice \<Rightarrow> bool" where
  "voice_is_reset v \<longleftrightarrow>
     accumulator (wave v) = 0 \<and> shift_register (wave v) = 0x7ffff8
     \<and> freq (wave v) = 0 \<and> pw (wave v) = 0
     \<and> \<not> test (wave v) \<and> \<not> ring_mod (wave v) \<and> \<not> sync (wave v)
     \<and> \<not> msb_rising (wave v) \<and> \<not> gate (envelope v)
     \<and> envelope_counter (envelope v) = 0 \<and> rate_counter (envelope v) = 0
     \<and> exponential_counter (envelope v) = 0"

section \<open>Operations on one waveform generator\<close>

text \<open>
  Everything that can happen to a waveform generator between two resets: a clock, a
  synchronization against its sync source in some state, and the five register writes.
\<close>

datatype wave_op =
    Clock cycle_count
  | Synchronize WaveformGenerator
  | WriteFREQ_LO reg8
  | WriteFREQ_HI reg8
  | WritePW_LO reg8
  | WritePW_HI reg8
  | WriteCONTROL_REG reg8

fun wave_apply :: "WaveformGenerator \<Rightarrow> wave_op \<Rightarrow> WaveformGenerator" where
  "wave_apply w (Clock delta_t) = wave_clock delta_t w"
| "wave_apply w (Synchronize sync_source) = synchronize sync_source w"
| "wave_apply w (WriteFREQ_LO v) = writeFREQ_LO v w"
| "wave_apply w (WriteFREQ_HI v) = writeFREQ_HI v w"
| "wave_apply w (WritePW_LO v) = writePW_LO v w"
| "wave_apply w (WritePW_HI v) = writePW_HI v w"
| "wave_apply w (WriteCONTROL_REG v) = wave_writeCONTROL_REG v w"

text \<open>The test bit an operation writes, if it writes the control register.\<close>

fun writes_test :: "bool \<Rightarrow> wave_op \<Rightarrow> bool" where
  "writes_test b (WriteCONTROL_REG v) = ((v AND 0x08 \<noteq> 0) = b)"
| "writes_test b _ = True"

definition lfsr_ok :: "WaveformGenerator \<Rightarrow> bool" where
  "lfsr_ok w \<longleftrightarrow> shift_register w \<noteq> 0 \<and> shift_register w \<le> 0x7fffff"

definition held_in_test :: "WaveformGenerator \<Rightarrow> bool" where
  "held_in_test w \<longleftrightarrow> test w \<and> accumulator w = 0 \<and> shift_register w = 0"

text \<open>
  What \<open>SID::clock\<close> does to one envelope generator: it is clocked once per filter
  window.
\<close>

function env_windows :: "cycle_count \<Rightarrow> cycle_count \<Rightarrow> EnvelopeGenerator \<Rightarrow> EnvelopeGenerator" where
  "env_windows delta_t_flt0 delta_t e =
     (if delta_t > 0 then
        (let delta_t_flt = (if delta_t < delta_t_flt0 then delta_t else delta_t_flt0)
         in if delta_t_flt \<le> 0 then env_clock delta_t_flt e
            else env_windows delta_t_flt (delta_t - delta_t_flt) (env_clock delta_t_flt e))
      else e)"
  by pat_completeness auto
termination
  by (relation "measure (\<lambda>(delta_t_flt0, delta_t, e). nat delta_t)") auto

declare env_windows.simps [simp del]

text \<open>
  The output of the external filter in the words of the specification: the difference of
  the states shifted down by 11 bits and clamped to the signed 16 bit range.
\<close>

definition clamped_output :: "ExternalFilter \<Rightarrow> int" where
  "clamped_output f = max (- 32768) (min 32767 ((vlp f - vhp f) div 2 ^ 11))"

text \<open>
  Scenario S2 on one envelope generator: the state after ATTACK_DECAY = 0x00 and gate on,
  and the state after 8 cycles and ATTACK_DECAY = 0xF0. The third state is reached with
  the two rates exchanged and 100 cycles in between.
\<close>

definition S2_gate_on :: EnvelopeGenerator where
  "S2_gate_on = env_writeCONTROL_REG 0x01 (writeATTACK_DECAY 0x00 EnvelopeGenerator_new)"

definition S2_rewritten :: EnvelopeGenerator where
  "S2_rewritten = writeATTACK_DECAY 0xF0 (env_clock 8 S2_gate_on)"

definition S2_reversed :: EnvelopeGenerator where
  "S2_reversed = writeATTACK_DECAY 0x00 (env_clock 100
     (env_writeCONTROL_REG 0x01 (writeATTACK_DECAY 0xF0 EnvelopeGenerator_new)))"

text \<open>
  The range of the envelope counter, and what a clock step may do to it: the result is in
  range, a step that begins and ends in the attack state does not lower the counter, and a
  step that begins in the release state does not raise it.
\<close>

definition env_ok :: "EnvelopeGenerator \<Rightarrow> bool" where
  "env_ok e \<longleftrightarrow> 0 \<le> envelope_counter e \<and> envelope_counter e \<le> 0xff"

definition env_step_ok :: "EnvelopeGenerator \<Rightarrow> EnvelopeGenerator \<Rightarrow> bool" where
  "env_step_ok e e' \<longleftrightarrow>
     env_ok e'
     \<and> (state e = ATTACK \<and> state e' = ATTACK \<longrightarrow> envelope_counter e \<le> envelope_counter e')
     \<and> (state e = RELEASE \<longrightarrow> envelope_counter e' \<le> envelope_counter e)"

text \<open>Everything that can happen to an envelope generator between two resets.\<close>

datatype env_op =
    EnvClock cycle_count
  | EnvWriteCONTROL_REG reg8
  | EnvWriteATTACK_DECAY reg8
  | EnvWriteSUSTAIN_RELEASE reg8

fun env_apply :: "EnvelopeGenerator \<Rightarrow> env_op \<Rightarrow> EnvelopeGenerator" where
  "env_apply e (EnvClock delta_t) = env_clock delta_t e"
| "env_apply e (EnvWriteCONTROL_REG v) = env_writeCONTROL_REG v e"
| "env_apply e (EnvWriteATTACK_DECAY v) = writeATTACK_DECAY v e"
| "env_apply e (EnvWriteSUSTAIN_RELEASE v) = writeSUSTAIN_RELEASE v e"

text \<open>The attack of scenario S2, left alone for 2286 cycles.\<close>

definition S2_attack_254 :: EnvelopeGenerator where
  "S2_attack_254 = env_clock 2286 S2_gate_on"

text \<open>
  The period of the exponential counter and the lower end of the segment, both looked up
  from the envelope counter as the decay and release loops do at the start of each pass.
\<close>

definition segment_period :: "EnvelopeGenerator \<Rightarrow> int" where
  "segment_period e =
     exponential_counter_period ! (exponential_counter_segment ! nat (envelope_counter e))"

definition segment_level :: "EnvelopeGenerator \<Rightarrow> int" where
  "segment_level e =
     exponential_counter_level ! (exponential_counter_segment ! nat (envelope_counter e))"





section \<open>Basic facts about the loops\<close>

lemma step_envelope_loop_zero [simp]:
  "step_envelope_loop m i x rs d 0 e = (d, 0, e)"
  by (simp add: step_envelope_loop.simps)

lemma decay_sustain_loop_zero [simp]: "decay_sustain_loop 0 e = e"
  by (simp add: decay_sustain_loop.simps)

lemma release_loop_zero [simp]: "release_loop 0 e = e"
  by (simp add: release_loop.simps)

lemma exponential_counter_period_0: "exponential_counter_period ! 0 = 1"
  by (simp add: exponential_counter_period_def)

lemma segment_table:
  "exponential_counter_segment =
     replicate 7 5 @ replicate 8 4 @ replicate 12 3 @ replicate 28 2 @ replicate 39 1
       @ replicate 162 0"
  unfolding exponential_counter_segment_def by (simp add: numeral_eq_Suc)

lemma segment_of:
  "n < 256 \<Longrightarrow> exponential_counter_segment ! n =
     (if n < 7 then 5 else if n < 15 then 4 else if n < 27 then 3 else if n < 55 then 2
      else if n < 94 then 1 else 0)"
  unfolding segment_table by (auto simp: nth_append)

lemma level_of_segment:
  assumes "n < 256"
  shows "exponential_counter_level ! (exponential_counter_segment ! n) \<le> int n
       \<and> 0 \<le> exponential_counter_level ! (exponential_counter_segment ! n)"
  using assms by (simp add: segment_of exponential_counter_level_def)

lemma sustain_level_nonneg: "0 \<le> sustain_level ! unat (i :: 4 word)"
proof -
  have "unat i < 16" using unsigned_less [of i] by simp
  moreover have "\<forall>n < 16. 0 \<le> sustain_level ! n"
    by (simp add: sustain_level_def All_less_Suc numeral_eq_Suc)
  ultimately show ?thesis by blast
qed

text \<open>Rules that run the loops on concrete arguments.\<close>

lemmas env_eval = env_clock_def step_envelope_def Let_def step_envelope_loop.simps
  decay_sustain_loop.simps release_loop.simps env_windows.simps segment_of
  rate_counter_period_def exponential_counter_period_def exponential_counter_level_def
  sustain_level_def

lemmas extfilt_eval = extfilt_clock_def extfilt_loop.simps extfilt_single_loop.simps
  extfilt_step_def extfilt_clock1_def t1_def tmax_def MAX_CYCLES_def Let_def


section \<open>Closed forms of the envelope clock\<close>

lemma rate_counter_period_le: "rate_counter_period ! unat (i :: 4 word) \<le> 31252"
proof -
  have "unat i < 16" using unsigned_less [of i] by simp
  moreover have "\<forall>n < 16. rate_counter_period ! n \<le> 31252"
    by (simp add: rate_counter_period_def All_less_Suc numeral_eq_Suc)
  ultimately show ?thesis by blast
qed

lemma and_7fff_id: "0 \<le> x \<Longrightarrow> x < 0x8000 \<Longrightarrow> x AND 0x7fff = (x::int)"
proof -
  assume "0 \<le> x" "x < 0x8000"
  then have "take_bit 15 x = x" by (simp add: take_bit_int_eq_self)
  then show ?thesis by (simp add: take_bit_eq_mask mask_eq_exp_minus_1)
qed

lemma step_envelope_loop_closed_form:
  "0 \<le> rate_counter e \<Longrightarrow> rate_counter e < rate_counter_period ! unat i
   \<Longrightarrow> rs = rate_counter_period ! unat i - rate_counter e
   \<Longrightarrow> 0 \<le> exponential_counter e
   \<Longrightarrow> exponential_counter e < exponential_counter_period ! x
   \<Longrightarrow> 0 \<le> dt \<Longrightarrow> 0 \<le> d
   \<Longrightarrow> d + (exponential_counter e + (rate_counter e + dt) div (rate_counter_period ! unat i))
           div (exponential_counter_period ! x) < m
   \<Longrightarrow> step_envelope_loop m i x rs d dt e =
        (d + (exponential_counter e + (rate_counter e + dt) div (rate_counter_period ! unat i))
               div (exponential_counter_period ! x),
         0,
         e\<lparr>rate_counter := (rate_counter e + dt) mod (rate_counter_period ! unat i),
           exponential_counter :=
             (exponential_counter e + (rate_counter e + dt) div (rate_counter_period ! unat i))
               mod (exponential_counter_period ! x)\<rparr>)"
proof (induction m i x rs d dt e rule: step_envelope_loop.induct)
  case (1 m i x rs d dt e)
  define p where "p = rate_counter_period ! unat i"
  define q where "q = exponential_counter_period ! x"
  define r where "r = rate_counter e"
  define c where "c = exponential_counter e"
  note prems = "1.prems" [folded p_def q_def r_def c_def]
  have p: "0 < p" "p \<le> 31252"
    using rate_counter_period_pos [of i] rate_counter_period_le [of i] by (simp_all add: p_def)
  have r: "0 \<le> r" "r < p" and rs: "rs = p - r" and c: "0 \<le> c" "c < q"
    and dt: "0 \<le> dt" and d: "0 \<le> d" and m: "d + (c + (r + dt) div p) div q < m"
    using prems by simp_all
  show ?case
  proof (cases "dt = 0")
    case True
    with r c show ?thesis
      unfolding p_def [symmetric] q_def [symmetric] r_def [symmetric] c_def [symmetric]
      by (simp add: r_def c_def)
  next
    case nz: False
    show ?thesis
    proof (cases "dt < rs")
      case True
      then have lt: "r + dt < p" using rs by simp
      then have "(r + dt) div p = 0" "(r + dt) mod p = r + dt" using r dt by simp_all
      moreover have "(r + dt) AND 0x7fff = r + dt"
        using r dt lt p by (intro and_7fff_id) auto
      ultimately show ?thesis
        using nz True c
        unfolding p_def [symmetric] q_def [symmetric] r_def [symmetric] c_def [symmetric]
        by (subst step_envelope_loop.simps) (simp add: r_def [symmetric] c_def)
    next
      case False
      define dt1 where "dt1 = dt - rs"
      have dt1: "0 \<le> dt1" "r + dt = p + dt1" using False rs by (simp_all add: dt1_def)
      have j: "(r + dt) div p = 1 + dt1 div p" "(r + dt) mod p = dt1 mod p"
        using p unfolding dt1(2) by (simp_all add: div_add_self1)
      have q: "0 < q" using c by simp
      show ?thesis
      proof (cases "c + 1 = q")
        case True
        have k: "(c + (r + dt) div p) div q = 1 + (dt1 div p) div q"
          "(c + (r + dt) div p) mod q = (dt1 div p) mod q"
        proof -
          have "c + (r + dt) div p = q + dt1 div p" using True j by simp
          then show "(c + (r + dt) div p) div q = 1 + (dt1 div p) div q"
            "(c + (r + dt) div p) mod q = (dt1 div p) mod q"
            using q by (simp_all add: div_add_self1)
        qed
        have nn: "0 \<le> (dt1 div p) div q"
          using dt1(1) p q by (simp add: pos_imp_zdiv_nonneg_iff)
        have m0: "m \<noteq> 0" "d + 1 \<noteq> m" using m d k nn by simp_all
        let ?e2 = "e\<lparr>rate_counter := 0, exponential_counter := 0\<rparr>"
        have ih: "step_envelope_loop m i x p (d + 1) dt1 ?e2 =
            (d + 1 + (dt1 div p) div q, 0,
             ?e2\<lparr>rate_counter := dt1 mod p, exponential_counter := (dt1 div p) mod q\<rparr>)"
          using "1.IH"(1) [OF nz False] True m0 p q dt1(1) d m k
          unfolding p_def [symmetric] q_def [symmetric] c_def [symmetric] dt1_def [symmetric]
          by simp
        have "step_envelope_loop m i x rs d dt e = step_envelope_loop m i x p (d + 1) dt1 ?e2"
          using nz False True m0
          by (subst step_envelope_loop.simps)
             (simp add: p_def q_def c_def dt1_def)
        with ih show ?thesis
          unfolding p_def [symmetric] q_def [symmetric] r_def [symmetric] c_def [symmetric]
          unfolding k j(2) by simp
      next
        case ne: False
        then have lt: "c + 1 < q" using c by simp
        have k: "(c + (r + dt) div p) div q = (c + 1 + dt1 div p) div q"
          "(c + (r + dt) div p) mod q = (c + 1 + dt1 div p) mod q"
          using j by (simp_all add: algebra_simps)
        let ?e3 = "e\<lparr>rate_counter := 0, exponential_counter := c + 1\<rparr>"
        have ih: "step_envelope_loop m i x p d dt1 ?e3 =
            (d + (c + 1 + dt1 div p) div q, 0,
             ?e3\<lparr>rate_counter := dt1 mod p,
                  exponential_counter := (c + 1 + dt1 div p) mod q\<rparr>)"
          using "1.IH"(3) [OF nz False] ne lt c p dt1(1) d m k
          unfolding p_def [symmetric] q_def [symmetric] c_def [symmetric] dt1_def [symmetric]
          by simp
        have "step_envelope_loop m i x rs d dt e = step_envelope_loop m i x p d dt1 ?e3"
          using nz False ne
          by (subst step_envelope_loop.simps)
             (simp add: p_def q_def c_def dt1_def)
        with ih show ?thesis
          unfolding p_def [symmetric] q_def [symmetric] r_def [symmetric] c_def [symmetric]
          unfolding k j(2) by simp
      qed
    qed
  qed
qed


lemma step_envelope_closed_form:
  assumes "0 \<le> rate_counter e" "rate_counter e < rate_counter_period ! unat i"
    "0 \<le> exponential_counter e" "exponential_counter e < exponential_counter_period ! x"
    "0 \<le> dt"
    "(exponential_counter e + (rate_counter e + dt) div (rate_counter_period ! unat i))
           div (exponential_counter_period ! x) < m"
  shows "step_envelope m i x dt e =
        ((exponential_counter e + (rate_counter e + dt) div (rate_counter_period ! unat i))
               div (exponential_counter_period ! x),
         0,
         e\<lparr>rate_counter := (rate_counter e + dt) mod (rate_counter_period ! unat i),
           exponential_counter :=
             (exponential_counter e + (rate_counter e + dt) div (rate_counter_period ! unat i))
               mod (exponential_counter_period ! x)\<rparr>)"
  using step_envelope_loop_closed_form [OF assms(1,2) refl assms(3,4,5), of 0 m] assms
  by (simp add: step_envelope_def Let_def)

lemma segment_period_pos:
  "n < 256 \<Longrightarrow> 0 < exponential_counter_period ! (exponential_counter_segment ! n)"
  by (simp add: segment_of exponential_counter_period_def)

lemma attack_closed_form:
  assumes "state e = ATTACK" "exponential_counter e = 0"
    "0 \<le> rate_counter e" "rate_counter e < rate_counter_period ! unat (attack e)"
    "0 \<le> n"
    "envelope_counter e + (rate_counter e + n) div (rate_counter_period ! unat (attack e)) < 0xff"
  shows "env_clock n e =
     e\<lparr>rate_counter := (rate_counter e + n) mod (rate_counter_period ! unat (attack e)),
       envelope_counter :=
         envelope_counter e + (rate_counter e + n) div (rate_counter_period ! unat (attack e))\<rparr>"
proof -
  define p where "p = rate_counter_period ! unat (attack e)"
  have ex: "e\<lparr>exponential_counter := 0\<rparr> = e" using assms(2) by (cases e) simp
  have st: "step_envelope (0xff - envelope_counter e) (attack e) 0 n e =
      ((rate_counter e + n) div p, 0,
       e\<lparr>rate_counter := (rate_counter e + n) mod p, exponential_counter := 0\<rparr>)"
    using step_envelope_closed_form [of e "attack e" 0 n "0xff - envelope_counter e"] assms
    by (simp add: exponential_counter_period_0 p_def)
  have "e\<lparr>rate_counter := (rate_counter e + n) mod p, exponential_counter := 0\<rparr>
      = e\<lparr>rate_counter := (rate_counter e + n) mod p\<rparr>"
    using assms(2) by (cases e) simp
  with st assms(1,6) show ?thesis
    by (simp add: env_clock_def Let_def p_def)
qed


lemma release_closed_form:
  assumes "state e = RELEASE" "0 \<le> envelope_counter e" "envelope_counter e \<le> 0xff"
    "0 \<le> rate_counter e" "rate_counter e < rate_counter_period ! unat (release e)"
    "0 \<le> exponential_counter e" "exponential_counter e < segment_period e"
    "0 \<le> n"
    "segment_level e < envelope_counter e
       - (exponential_counter e + (rate_counter e + n) div (rate_counter_period ! unat (release e)))
           div segment_period e"
  shows "env_clock n e =
     e\<lparr>rate_counter := (rate_counter e + n) mod (rate_counter_period ! unat (release e)),
       exponential_counter :=
         (exponential_counter e + (rate_counter e + n) div (rate_counter_period ! unat (release e)))
           mod segment_period e,
       envelope_counter := envelope_counter e
         - (exponential_counter e + (rate_counter e + n) div (rate_counter_period ! unat (release e)))
             div segment_period e\<rparr>"
proof (cases "n = 0")
  case True
  with assms show ?thesis by (simp add: env_clock_def)
next
  case False
  let ?seg = "exponential_counter_segment ! nat (envelope_counter e)"
  have st: "step_envelope (envelope_counter e - exponential_counter_level ! ?seg) (release e)
        ?seg n e =
      ((exponential_counter e + (rate_counter e + n) div (rate_counter_period ! unat (release e)))
          div (exponential_counter_period ! ?seg), 0,
       e\<lparr>rate_counter := (rate_counter e + n) mod (rate_counter_period ! unat (release e)),
         exponential_counter :=
           (exponential_counter e
              + (rate_counter e + n) div (rate_counter_period ! unat (release e)))
             mod (exponential_counter_period ! ?seg)\<rparr>)"
    using assms by (intro step_envelope_closed_form) (simp_all add: segment_period_def segment_level_def)
  show ?thesis
    using assms(1) False
    by (simp add: env_clock_def release_loop.simps [of n] Let_def st segment_period_def)
qed

lemma decay_closed_form:
  assumes "state e = DECAY_SUSTAIN" "0 \<le> envelope_counter e" "envelope_counter e \<le> 0xff"
    "0 \<le> rate_counter e" "rate_counter e < rate_counter_period ! unat (decay e)"
    "0 \<le> exponential_counter e" "exponential_counter e < segment_period e"
    "0 \<le> n"
    "segment_level e < envelope_counter e
       - (exponential_counter e + (rate_counter e + n) div (rate_counter_period ! unat (decay e)))
           div segment_period e"
    "sustain_level ! unat (sustain e) < envelope_counter e
       - (exponential_counter e + (rate_counter e + n) div (rate_counter_period ! unat (decay e)))
           div segment_period e"
  shows "env_clock n e =
     e\<lparr>rate_counter := (rate_counter e + n) mod (rate_counter_period ! unat (decay e)),
       exponential_counter :=
         (exponential_counter e + (rate_counter e + n) div (rate_counter_period ! unat (decay e)))
           mod segment_period e,
       envelope_counter := envelope_counter e
         - (exponential_counter e + (rate_counter e + n) div (rate_counter_period ! unat (decay e)))
             div segment_period e\<rparr>"
proof (cases "n = 0")
  case True
  with assms show ?thesis by (simp add: env_clock_def)
next
  case False
  let ?seg = "exponential_counter_segment ! nat (envelope_counter e)"
  let ?lev = "exponential_counter_level ! ?seg"
  let ?sus = "sustain_level ! unat (sustain e)"
  let ?K = "(exponential_counter e + (rate_counter e + n) div (rate_counter_period ! unat (decay e)))
          div (exponential_counter_period ! ?seg)"
  have K: "0 \<le> ?K"
    using assms rate_counter_period_pos [of "decay e"]
    by (simp add: pos_imp_zdiv_nonneg_iff segment_period_def)
  define ml where "ml = (if ?lev < ?sus then ?sus else ?lev)"
  have ml: "ml < envelope_counter e - ?K"
    using assms(9,10) by (simp add: ml_def segment_period_def segment_level_def)
  have dm: "\<not> envelope_counter e < ml" using ml K by simp
  have st: "step_envelope (envelope_counter e - ml) (decay e) ?seg n e =
      (?K, 0,
       e\<lparr>rate_counter := (rate_counter e + n) mod (rate_counter_period ! unat (decay e)),
         exponential_counter :=
           (exponential_counter e
              + (rate_counter e + n) div (rate_counter_period ! unat (decay e)))
             mod (exponential_counter_period ! ?seg)\<rparr>)"
    using assms ml by (intro step_envelope_closed_form) (simp_all add: segment_period_def)
  show ?thesis
    using assms(1) False
    by (simp add: env_clock_def decay_sustain_loop.simps [of n] Let_def ml_def [symmetric] dm st
          segment_period_def)
qed


lemma rate_index_in_table: "unat (i :: 4 word) < length rate_counter_period"
proof -
  have "unat i < 16" using unsigned_less [of i] by simp
  then show ?thesis by (simp add: rate_counter_period_def)
qed


section \<open>The rate table\<close>

lemma attack_below_period:
  assumes "state e = ATTACK" "rate_counter e = 0" "envelope_counter e < 0xff"
    "0 \<le> n" "n < rate_counter_period ! unat (attack e)"
  shows "env_clock n e = e\<lparr>rate_counter := n AND 0x7fff\<rparr>"
proof (cases "n = 0")
  case True
  with assms show ?thesis by (simp add: env_clock_def step_envelope_def Let_def)
next
  case False
  with assms show ?thesis
    by (simp add: env_clock_def step_envelope_def Let_def step_envelope_loop.simps)
qed

lemma attack_at_period:
  assumes "state e = ATTACK" "rate_counter e = 0" "exponential_counter e = 0"
    "envelope_counter e < 0xff"
  shows "envelope_counter (env_clock (rate_counter_period ! unat (attack e)) e)
           = envelope_counter e + 1
         \<and> rate_counter (env_clock (rate_counter_period ! unat (attack e)) e) = 0"
  using assms rate_counter_period_pos [of "attack e"]
  by (simp add: env_clock_def step_envelope_def Let_def step_envelope_loop.simps
        exponential_counter_period_0)

text \<open>
  Claim C3. The rate table holds the sixteen comparison values 9, 32, 63, 95, 149, 220,
  267, 313, 392, 977, 1954, 3126, 3906, 11720, 19532, 31252, and a 4 bit selector always
  indexes inside it. The value \<open>p\<close> selected by the state (attack, decay or release) is
  the period between steps: from any rate counter below \<open>p\<close>, \<open>n\<close> cycles bring the rate
  counter to \<open>(rate_counter + n) mod p\<close> and make it reach \<open>p\<close>
  \<open>(rate_counter + n) div p\<close> times. In attack each of these steps the envelope counter
  up by one (as long as it stays below 0xff); in decay and release every \<open>q\<close>-th of them
  steps it down by one, \<open>q\<close> being the period of the exponential counter in the current
  segment (as long as the counter stays above the end of the segment and, in decay, above
  the sustain level). In particular an attack from zero counters steps for the first time
  after exactly \<open>p\<close> cycles.
\<close>

theorem rate_counter_period_governs_steps:
  assumes "0 \<le> rate_counter e" "0 \<le> exponential_counter e"
    "exponential_counter e < segment_period e"
    "0 \<le> envelope_counter e" "envelope_counter e \<le> 0xff" "0 \<le> n"
  shows "rate_counter_period =
           [9, 32, 63, 95, 149, 220, 267, 313, 392, 977, 1954, 3126, 3906, 11720, 19532, 31252]
     \<and> unat (attack e) < length rate_counter_period
     \<and> unat (decay e) < length rate_counter_period
     \<and> unat (release e) < length rate_counter_period
     \<and> (state e = ATTACK \<and> exponential_counter e = 0
          \<and> rate_counter e < rate_counter_period ! unat (attack e)
        \<longrightarrow> (let p = rate_counter_period ! unat (attack e);
                 k = (rate_counter e + n) div p
             in envelope_counter e + k < 0xff
                \<longrightarrow> envelope_counter (env_clock n e) = envelope_counter e + k
                  \<and> rate_counter (env_clock n e) = (rate_counter e + n) mod p
                  \<and> state (env_clock n e) = ATTACK))
     \<and> (state e = DECAY_SUSTAIN \<and> rate_counter e < rate_counter_period ! unat (decay e)
        \<longrightarrow> (let p = rate_counter_period ! unat (decay e);
                 q = segment_period e;
                 k = (exponential_counter e + (rate_counter e + n) div p) div q
             in segment_level e < envelope_counter e - k
                \<and> sustain_level ! unat (sustain e) < envelope_counter e - k
                \<longrightarrow> envelope_counter (env_clock n e) = envelope_counter e - k
                  \<and> rate_counter (env_clock n e) = (rate_counter e + n) mod p
                  \<and> exponential_counter (env_clock n e)
                      = (exponential_counter e + (rate_counter e + n) div p) mod q))
     \<and> (state e = RELEASE \<and> rate_counter e < rate_counter_period ! unat (release e)
        \<longrightarrow> (let p = rate_counter_period ! unat (release e);
                 q = segment_period e;
                 k = (exponential_counter e + (rate_counter e + n) div p) div q
             in segment_level e < envelope_counter e - k
                \<longrightarrow> envelope_counter (env_clock n e) = envelope_counter e - k
                  \<and> rate_counter (env_clock n e) = (rate_counter e + n) mod p
                  \<and> exponential_counter (env_clock n e)
                      = (exponential_counter e + (rate_counter e + n) div p) mod q))
     \<and> (state e = ATTACK \<and> rate_counter e = 0 \<and> exponential_counter e = 0
          \<and> envelope_counter e < 0xff
        \<longrightarrow> envelope_counter (env_clock (rate_counter_period ! unat (attack e)) e)
              = envelope_counter e + 1
          \<and> rate_counter (env_clock (rate_counter_period ! unat (attack e)) e) = 0)"
proof -
  have a: "state e = ATTACK \<and> exponential_counter e = 0
          \<and> rate_counter e < rate_counter_period ! unat (attack e)
        \<longrightarrow> (let p = rate_counter_period ! unat (attack e);
                 k = (rate_counter e + n) div p
             in envelope_counter e + k < 0xff
                \<longrightarrow> envelope_counter (env_clock n e) = envelope_counter e + k
                  \<and> rate_counter (env_clock n e) = (rate_counter e + n) mod p
                  \<and> state (env_clock n e) = ATTACK)"
    using attack_closed_form [of e n] assms by (simp add: Let_def)
  have d: "state e = DECAY_SUSTAIN \<and> rate_counter e < rate_counter_period ! unat (decay e)
        \<longrightarrow> (let p = rate_counter_period ! unat (decay e);
                 q = segment_period e;
                 k = (exponential_counter e + (rate_counter e + n) div p) div q
             in segment_level e < envelope_counter e - k
                \<and> sustain_level ! unat (sustain e) < envelope_counter e - k
                \<longrightarrow> envelope_counter (env_clock n e) = envelope_counter e - k
                  \<and> rate_counter (env_clock n e) = (rate_counter e + n) mod p
                  \<and> exponential_counter (env_clock n e)
                      = (exponential_counter e + (rate_counter e + n) div p) mod q)"
    using decay_closed_form [of e n] assms by (simp add: Let_def)
  have r: "state e = RELEASE \<and> rate_counter e < rate_counter_period ! unat (release e)
        \<longrightarrow> (let p = rate_counter_period ! unat (release e);
                 q = segment_period e;
                 k = (exponential_counter e + (rate_counter e + n) div p) div q
             in segment_level e < envelope_counter e - k
                \<longrightarrow> envelope_counter (env_clock n e) = envelope_counter e - k
                  \<and> rate_counter (env_clock n e) = (rate_counter e + n) mod p
                  \<and> exponential_counter (env_clock n e)
                      = (exponential_counter e + (rate_counter e + n) div p) mod q)"
    using release_closed_form [of e n] assms by (simp add: Let_def)
  have f: "state e = ATTACK \<and> rate_counter e = 0 \<and> exponential_counter e = 0
          \<and> envelope_counter e < 0xff
        \<longrightarrow> envelope_counter (env_clock (rate_counter_period ! unat (attack e)) e)
              = envelope_counter e + 1
          \<and> rate_counter (env_clock (rate_counter_period ! unat (attack e)) e) = 0"
    using attack_at_period [of e] by simp
  have t: "rate_counter_period =
           [9, 32, 63, 95, 149, 220, 267, 313, 392, 977, 1954, 3126, 3906, 11720, 19532, 31252]"
    by (simp add: rate_counter_period_def)
  from t a d r f rate_index_in_table [of "attack e"] rate_index_in_table [of "decay e"]
    rate_index_in_table [of "release e"]
  show ?thesis by blast
qed

theorem rate_counter_period_governs_steps_witness:
  "state (env_writeCONTROL_REG 1 (writeATTACK_DECAY 0x20 EnvelopeGenerator_new)) = ATTACK
   \<and> rate_counter_period
        ! unat (attack (env_writeCONTROL_REG 1 (writeATTACK_DECAY 0x20 EnvelopeGenerator_new)))
      = 63
   \<and> envelope_counter
        (env_clock 131 (env_writeCONTROL_REG 1 (writeATTACK_DECAY 0x20 EnvelopeGenerator_new)))
      = 2
   \<and> rate_counter
        (env_clock 131 (env_writeCONTROL_REG 1 (writeATTACK_DECAY 0x20 EnvelopeGenerator_new)))
      = 5
   \<and> envelope_counter (env_clock 1000
        \<lparr>rate_counter = 7, exponential_counter = 0, envelope_counter = 255,
          attack = 0, decay = 3, sustain = 4, release = 0, gate = True,
          state = DECAY_SUSTAIN\<rparr>) = 245
   \<and> rate_counter (env_clock 1000
        \<lparr>rate_counter = 7, exponential_counter = 0, envelope_counter = 255,
          attack = 0, decay = 3, sustain = 4, release = 0, gate = True,
          state = DECAY_SUSTAIN\<rparr>) = 57
   \<and> envelope_counter (env_clock 2000
        \<lparr>rate_counter = 30, exponential_counter = 1, envelope_counter = 80,
          attack = 0, decay = 0, sustain = 0, release = 5, gate = False,
          state = RELEASE\<rparr>) = 75
   \<and> rate_counter (env_clock 2000
        \<lparr>rate_counter = 30, exponential_counter = 1, envelope_counter = 80,
          attack = 0, decay = 0, sustain = 0, release = 5, gate = False,
          state = RELEASE\<rparr>) = 50
   \<and> exponential_counter (env_clock 2000
        \<lparr>rate_counter = 30, exponential_counter = 1, envelope_counter = 80,
          attack = 0, decay = 0, sustain = 0, release = 5, gate = False,
          state = RELEASE\<rparr>) = 0"
proof -
  let ?a = "env_writeCONTROL_REG 1 (writeATTACK_DECAY 0x20 EnvelopeGenerator_new)"
  let ?d = "\<lparr>rate_counter = 7, exponential_counter = 0, envelope_counter = 255,
          attack = 0, decay = 3, sustain = 4, release = 0, gate = True,
          state = DECAY_SUSTAIN\<rparr>"
  let ?r = "\<lparr>rate_counter = 30, exponential_counter = 1, envelope_counter = 80,
          attack = 0, decay = 0, sustain = 0, release = 5, gate = False,
          state = RELEASE\<rparr>"
  have e: "?a = \<lparr>rate_counter = 0, exponential_counter = 0, envelope_counter = 0,
      attack = 2, decay = 0, sustain = 0, release = 0, gate = True, state = ATTACK\<rparr>"
    by (simp add: env_writeCONTROL_REG_def writeATTACK_DECAY_def EnvelopeGenerator_new_def
          env_reset_def Let_def)
  have tab: "rate_counter_period ! 2 = 63" "rate_counter_period ! 3 = 95"
    "rate_counter_period ! 5 = 220" "sustain_level ! 4 = 0x44"
    by (simp_all add: rate_counter_period_def sustain_level_def)
  have seg: "segment_period ?d = 1" "segment_level ?d = 93"
    "segment_period ?r = 2" "segment_level ?r = 54"
    "segment_period \<lparr>rate_counter = 0, exponential_counter = 0, envelope_counter = 0,
      attack = 2, decay = 0, sustain = 0, release = 0, gate = True, state = ATTACK\<rparr> = 30"
    by (simp_all add: segment_period_def segment_level_def segment_of
          exponential_counter_period_def exponential_counter_level_def)
  have A: "envelope_counter (env_clock 131 ?a) = 2 \<and> rate_counter (env_clock 131 ?a) = 5"
    using rate_counter_period_governs_steps [of ?a 131]
    unfolding e by (simp add: tab seg Let_def)
  have D: "envelope_counter (env_clock 1000 ?d) = 245 \<and> rate_counter (env_clock 1000 ?d) = 57"
    using rate_counter_period_governs_steps [of ?d 1000]
    by (simp add: tab seg Let_def)
  have R: "envelope_counter (env_clock 2000 ?r) = 75 \<and> rate_counter (env_clock 2000 ?r) = 50
      \<and> exponential_counter (env_clock 2000 ?r) = 0"
    using rate_counter_period_governs_steps [of ?r 2000]
    by (simp add: tab seg Let_def)
  have "state ?a = ATTACK" "rate_counter_period ! unat (attack ?a) = 63"
    unfolding e by (simp_all add: tab)
  with A D R show ?thesis by blast
qed

section \<open>Reset\<close>

text \<open>
  Claim C7. After a reset every waveform generator has accumulator 0, shift register
  0x7ffff8, frequency 0, pulse width 0 and the flags test, ring modulation and sync (and
  the MSB flag) cleared, every envelope generator has envelope counter 0 with the gate off
  and both its counters at 0, and the three filter states are 0: everything is zero except
  the shift registers.
\<close>

theorem SID_reset_state:
  "voice_is_reset (voice1 (SID_reset s)) \<and> voice_is_reset (voice2 (SID_reset s))
   \<and> voice_is_reset (voice3 (SID_reset s))
   \<and> Vhp (sid_filter (SID_reset s)) = 0 \<and> Vbp (sid_filter (SID_reset s)) = 0
   \<and> Vlp (sid_filter (SID_reset s)) = 0"
  by (simp add: SID_reset_def voice_reset_def wave_reset_def env_reset_def filter_reset_def
        voice_is_reset_def)

section \<open>External filter\<close>

text \<open>
  Claim C9. With the external filter disabled, either clock function, called with an input
  \<open>vi\<close> and any cycle count (zero included), sets \<open>vlp = vi << 11\<close> and \<open>vhp = 0\<close>, and
  the output read afterwards is exactly \<open>vi\<close>.
\<close>

theorem extfilt_disabled_passes_input:
  assumes "\<not> enabled f"
  shows "extfilt_clock delta_t vi f = f\<lparr>vlp := sint vi * 2 ^ 11, vhp := 0\<rparr>
       \<and> extfilt_clock1 vi f = f\<lparr>vlp := sint vi * 2 ^ 11, vhp := 0\<rparr>
       \<and> extfilt_output (extfilt_clock delta_t vi f) = vi
       \<and> extfilt_output (extfilt_clock1 vi f) = vi"
  using assms by (simp add: extfilt_clock_def extfilt_clock1_def extfilt_output_def)

theorem extfilt_disabled_passes_input_witness:
  "\<not> enabled \<lparr>enabled = False, vlp = 5, vhp = 7\<rparr>
   \<and> extfilt_output (extfilt_clock 0 (-1234) \<lparr>enabled = False, vlp = 5, vhp = 7\<rparr>) = -1234
   \<and> extfilt_output (extfilt_clock1 32767 \<lparr>enabled = False, vlp = 5, vhp = 7\<rparr>) = 32767"
proof -
  have h: "\<not> enabled \<lparr>enabled = False, vlp = 5, vhp = 7\<rparr>" by simp
  have "extfilt_output (extfilt_clock 0 (-1234) \<lparr>enabled = False, vlp = 5, vhp = 7\<rparr>) = -1234"
    using extfilt_disabled_passes_input [OF h, of 0 "-1234"] by blast
  moreover
  have "extfilt_output (extfilt_clock1 32767 \<lparr>enabled = False, vlp = 5, vhp = 7\<rparr>) = 32767"
    using extfilt_disabled_passes_input [OF h, of 0 32767] by blast
  ultimately show ?thesis using h by blast
qed

section \<open>Sample output\<close>

text \<open>
  Claim C10. For every value of the filter output, \<open>output()\<close> and \<open>output(15)\<close> return
  the same number: \<open>2 << 15\<close> is 65536, so both divide the negated filter output by
  \<open>4095*255*3*15*2/65536\<close>, which is 1434. The argument 16 gives another divisor and
  another result.
\<close>

theorem SID_output_is_output_15:
  "SID_output_bits 15 filter_output = Some (SID_output filter_output)
   \<and> SID_output filter_output = c_div (- filter_output) (c_div (4095*255*3*15*2) 65536)
   \<and> c_div (4095*255*3*15*2) 65536 = 1434
   \<and> push_bit 15 (2::int) = 65536
   \<and> SID_output_bits 16 65536 \<noteq> Some (SID_output 65536)"
  by (simp add: SID_output_bits_def SID_output_def c_div_def)

section \<open>The noise shift register\<close>

lemma mask23: "(0x7fffff :: 32 word) = mask 23"
  by (simp add: mask_eq_exp_minus_1)

lemma le_mask23_iff: "sr \<le> (0x7fffff :: 32 word) \<longleftrightarrow> take_bit 23 sr = sr"
proof -
  have "sr \<le> 0x7fffff \<longleftrightarrow> uint sr < 2 ^ 23"
    by (auto simp: word_le_def)
  also have "\<dots> \<longleftrightarrow> sr AND mask 23 = sr" by (simp add: mask_eq_iff)
  finally show ?thesis by (simp add: take_bit_eq_mask)
qed

lemma shift_noise_bound: "shift_noise sr \<le> 0x7fffff"
proof -
  have "shift_noise sr = take_bit 23 (shift_noise sr)"
    unfolding shift_noise_def Let_def mask23
    by (rule bit_eqI) (auto simp: bit_simps)
  then show ?thesis by (simp add: le_mask23_iff)
qed

lemma shift_noise_nonzero:
  assumes nz: "sr \<noteq> 0" and le: "sr \<le> 0x7fffff"
  shows "shift_noise sr \<noteq> 0"
proof
  assume z: "shift_noise sr = 0"
  have tb: "take_bit 23 sr = sr"
    using le by (simp add: le_mask23_iff)
  have hi: "\<not> bit sr n" if "23 \<le> n" for n
    using that tb by (metis bit_take_bit_iff not_le)
  from z have a: "push_bit 1 sr AND mask 23 = 0"
    and b: "(drop_bit 22 sr XOR drop_bit 17 sr) AND 1 = 0"
    unfolding shift_noise_def Let_def mask23 by (simp_all add: or_eq_0_iff)
  have lo: "\<not> bit sr n" if "n < 22" for n
  proof
    assume "bit sr n"
    with that have "bit (push_bit 1 sr AND mask 23 :: 32 word) (Suc n)"
      by (simp add: bit_and_iff bit_mask_iff bit_push_bit_iff del: push_bit_of_Suc_0 push_bit_Suc)
    with a show False by simp
  qed
  from b have "\<not> bit ((drop_bit 22 sr XOR drop_bit 17 sr) AND 1) 0" by simp
  then have "bit sr 22 = bit sr 17" by (simp add: bit_simps)
  with lo [of 17] have mid: "\<not> bit sr 22" by simp
  have "\<not> bit sr n" for n
  proof (cases "n < 22")
    case True
    then show ?thesis by (rule lo)
  next
    case False
    then have "n = 22 \<or> 23 \<le> n" by arith
    with mid hi show ?thesis by blast
  qed
  then have "sr = 0" by (simp add: bit_eq_iff)
  with nz show False by contradiction
qed

lemma shift_noise_funpow:
  "sr \<noteq> 0 \<Longrightarrow> sr \<le> 0x7fffff \<Longrightarrow>
     (shift_noise ^^ n) sr \<noteq> 0 \<and> (shift_noise ^^ n) sr \<le> 0x7fffff"
  by (induction n) (simp_all add: shift_noise_nonzero shift_noise_bound)

section \<open>What the clock of the chip does to each generator\<close>

lemma osc_loop_frame:
  "envelope (voice1 (osc_loop d s)) = envelope (voice1 s)
   \<and> envelope (voice2 (osc_loop d s)) = envelope (voice2 s)
   \<and> envelope (voice3 (osc_loop d s)) = envelope (voice3 s)
   \<and> sid_filter (osc_loop d s) = sid_filter s"
proof (induction d s rule: osc_loop.induct)
  case (1 d s)
  show ?case
  proof (cases "d > 0")
    case True
    then show ?thesis
      using "1.IH" [OF True refl refl refl refl refl refl refl refl refl refl]
      by (subst (1 2 3 4) osc_loop.simps) (simp add: Let_def)
  next
    case False
    then show ?thesis by (simp add: osc_loop.simps)
  qed
qed

lemma osc_loop_wave_invariant:
  assumes clk: "\<And>dt w. P w \<Longrightarrow> P (wave_clock dt w)"
    and syn: "\<And>src w. P w \<Longrightarrow> P (synchronize src w)"
  shows "(P (wave (voice1 s)) \<longrightarrow> P (wave (voice1 (osc_loop d s))))
       \<and> (P (wave (voice2 s)) \<longrightarrow> P (wave (voice2 (osc_loop d s))))
       \<and> (P (wave (voice3 s)) \<longrightarrow> P (wave (voice3 (osc_loop d s))))"
proof (induction d s rule: osc_loop.induct)
  case (1 d s)
  show ?case
  proof (cases "d > 0")
    case True
    then show ?thesis
      using "1.IH" [OF True refl refl refl refl refl refl refl refl refl refl]
      by (subst (1 2 3) osc_loop.simps) (simp add: Let_def clk syn)
  next
    case False
    then show ?thesis by (simp add: osc_loop.simps)
  qed
qed


lemma SID_clock_loop_envelope:
  "envelope (voice1 (SID_clock_loop fc vo f d s)) = env_windows f d (envelope (voice1 s))
   \<and> envelope (voice2 (SID_clock_loop fc vo f d s)) = env_windows f d (envelope (voice2 s))
   \<and> envelope (voice3 (SID_clock_loop fc vo f d s)) = env_windows f d (envelope (voice3 s))"
proof (induction fc vo f d s rule: SID_clock_loop.induct)
  case (1 fc vo f d s)
  show ?case
  proof (cases "d > 0")
    case True
    show ?thesis
    proof (cases "(if d < f then d else f) \<le> 0")
      case stop: True
      with True show ?thesis
        by (subst (1 2 3) SID_clock_loop.simps, subst (1 2 3) env_windows.simps)
           (simp add: Let_def osc_loop_frame)
    next
      case False
      with True "1.IH" [OF True refl refl refl refl False] show ?thesis
        by (subst (1 2 3) SID_clock_loop.simps, subst (1 2 3) env_windows.simps)
           (simp add: Let_def osc_loop_frame)
    qed
  next
    case False
    then show ?thesis by (simp add: SID_clock_loop.simps env_windows.simps)
  qed
qed

lemma SID_clock_loop_wave_invariant:
  assumes clk: "\<And>dt w. P w \<Longrightarrow> P (wave_clock dt w)"
    and syn: "\<And>src w. P w \<Longrightarrow> P (synchronize src w)"
  shows "(P (wave (voice1 s)) \<longrightarrow> P (wave (voice1 (SID_clock_loop fc vo f d s))))
       \<and> (P (wave (voice2 s)) \<longrightarrow> P (wave (voice2 (SID_clock_loop fc vo f d s))))
       \<and> (P (wave (voice3 s)) \<longrightarrow> P (wave (voice3 (SID_clock_loop fc vo f d s))))"
proof (induction fc vo f d s rule: SID_clock_loop.induct)
  case (1 fc vo f d s)
  note osc = osc_loop_wave_invariant [of P, OF clk syn]
  show ?case
  proof (cases "d > 0")
    case True
    show ?thesis
    proof (cases "(if d < f then d else f) \<le> 0")
      case stop: True
      with True show ?thesis
        by (subst (1 2 3) SID_clock_loop.simps) (simp add: Let_def osc)
    next
      case False
      with True "1.IH" [OF True refl refl refl refl False] show ?thesis
        by (subst (1 2 3) SID_clock_loop.simps) (simp add: Let_def osc)
    qed
  next
    case False
    then show ?thesis by (simp add: SID_clock_loop.simps)
  qed
qed


section \<open>The shift register in normal operation and under test\<close>

lemma wave_clock_test [simp]: "test (wave_clock delta_t w) = test w"
  by (simp add: wave_clock_def Let_def)

lemma wave_clock_lfsr_ok: "lfsr_ok w \<Longrightarrow> lfsr_ok (wave_clock delta_t w)"
  by (simp add: lfsr_ok_def wave_clock_def Let_def shift_noise_funpow)

lemma synchronize_lfsr_ok: "lfsr_ok w \<Longrightarrow> lfsr_ok (synchronize src w)"
  by (simp add: lfsr_ok_def synchronize_def)

lemma wave_apply_lfsr_ok:
  "\<not> test w \<and> lfsr_ok w \<Longrightarrow> writes_test False op
     \<Longrightarrow> \<not> test (wave_apply w op) \<and> lfsr_ok (wave_apply w op)"
proof (cases op)
  case (Clock d)
  then show "\<not> test w \<and> lfsr_ok w \<Longrightarrow> ?thesis"
    using wave_clock_lfsr_ok [of w d] by simp
qed (auto simp: lfsr_ok_def synchronize_def writeFREQ_LO_def writeFREQ_HI_def writePW_LO_def
       writePW_HI_def wave_writeCONTROL_REG_def Let_def)

lemma wave_run_lfsr_ok:
  "\<not> test w \<and> lfsr_ok w \<Longrightarrow> list_all (writes_test False) ops
     \<Longrightarrow> \<not> test (foldl wave_apply w ops) \<and> lfsr_ok (foldl wave_apply w ops)"
proof (induction ops arbitrary: w)
  case Nil
  then show ?case by simp
next
  case (Cons op ops)
  from Cons.prems have "\<not> test (wave_apply w op) \<and> lfsr_ok (wave_apply w op)"
    by (simp add: wave_apply_lfsr_ok)
  with Cons.prems Cons.IH [of "wave_apply w op"] show ?case by simp
qed

lemma wave_reset_lfsr_ok: "\<not> test (wave_reset w) \<and> lfsr_ok (wave_reset w)"
  by (simp add: wave_reset_def lfsr_ok_def)

lemma wave_apply_held_in_test:
  "held_in_test w \<Longrightarrow> writes_test True op \<Longrightarrow> held_in_test (wave_apply w op)"
  by (cases op)
     (auto simp: held_in_test_def wave_clock_def synchronize_def writeFREQ_LO_def
        writeFREQ_HI_def writePW_LO_def writePW_HI_def wave_writeCONTROL_REG_def Let_def)

lemma wave_run_held_in_test:
  "held_in_test w \<Longrightarrow> list_all (writes_test True) ops \<Longrightarrow> held_in_test (foldl wave_apply w ops)"
  by (induction ops arbitrary: w) (simp_all add: wave_apply_held_in_test)

lemma SID_clock_wave_invariant:
  assumes clk: "\<And>dt w. P w \<Longrightarrow> P (wave_clock dt w)"
    and syn: "\<And>src w. P w \<Longrightarrow> P (synchronize src w)"
  shows "(P (wave (voice1 s)) \<longrightarrow> P (wave (voice1 (SID_clock fc vo d s))))
       \<and> (P (wave (voice2 s)) \<longrightarrow> P (wave (voice2 (SID_clock fc vo d s))))
       \<and> (P (wave (voice3 s)) \<longrightarrow> P (wave (voice3 (SID_clock fc vo d s))))"
  using SID_clock_loop_wave_invariant [of P, OF clk syn] by (simp add: SID_clock_def)

lemma SID_clock_envelope:
  "d \<noteq> 0 \<Longrightarrow>
   envelope (voice1 (SID_clock fc vo d s))
     = env_windows (if bypass (sid_filter s) then d else 8) d (envelope (voice1 s))
   \<and> envelope (voice2 (SID_clock fc vo d s))
     = env_windows (if bypass (sid_filter s) then d else 8) d (envelope (voice2 s))
   \<and> envelope (voice3 (SID_clock fc vo d s))
     = env_windows (if bypass (sid_filter s) then d else 8) d (envelope (voice3 s))"
  using SID_clock_loop_envelope by (simp add: SID_clock_def)

text \<open>
  Claim C5. A clock step of a waveform generator whose test flag is clear takes a nonzero
  23 bit noise shift register to a nonzero 23 bit shift register. Hence the register,
  which a reset sets to 0x7ffff8, is nonzero after every sequence of clocks,
  synchronizations and register writes that leave the test bit clear, and \<open>SID::clock\<close>
  keeps the register of each voice nonzero.
\<close>

theorem noise_register_never_zero:
  assumes "\<not> test w" "shift_register w \<noteq> 0" "shift_register w \<le> 0x7fffff"
  shows "shift_register (wave_clock delta_t w) \<noteq> 0
       \<and> shift_register (wave_clock delta_t w) \<le> 0x7fffff
       \<and> shift_register (wave_reset w0) = 0x7ffff8
       \<and> (list_all (writes_test False) ops
            \<longrightarrow> shift_register (foldl wave_apply (wave_reset w0) ops) \<noteq> 0)
       \<and> (lfsr_ok (wave (voice1 s)) \<longrightarrow> lfsr_ok (wave (voice1 (SID_clock fc vo d s))))
       \<and> (lfsr_ok (wave (voice2 s)) \<longrightarrow> lfsr_ok (wave (voice2 (SID_clock fc vo d s))))
       \<and> (lfsr_ok (wave (voice3 s)) \<longrightarrow> lfsr_ok (wave (voice3 (SID_clock fc vo d s))))"
proof -
  from assms have "lfsr_ok w" by (simp add: lfsr_ok_def)
  then have "lfsr_ok (wave_clock delta_t w)" by (rule wave_clock_lfsr_ok)
  moreover have "list_all (writes_test False) ops
            \<longrightarrow> shift_register (foldl wave_apply (wave_reset w0) ops) \<noteq> 0"
    using wave_run_lfsr_ok [OF wave_reset_lfsr_ok, of ops w0] by (simp add: lfsr_ok_def)
  moreover note SID_clock_wave_invariant [of lfsr_ok, OF wave_clock_lfsr_ok synchronize_lfsr_ok]
  ultimately show ?thesis by (simp add: lfsr_ok_def wave_reset_def)
qed

theorem noise_register_never_zero_witness:
  "\<not> test (writeFREQ_HI 0xff WaveformGenerator_new)
   \<and> shift_register (writeFREQ_HI 0xff WaveformGenerator_new) = 0x7ffff8
   \<and> shift_register (wave_clock 17 (writeFREQ_HI 0xff WaveformGenerator_new)) \<noteq> 0
   \<and> list_all (writes_test False) [WriteFREQ_HI 0xff, WriteCONTROL_REG 0x81, Clock 17]
   \<and> shift_register (foldl wave_apply (wave_reset WaveformGenerator_new)
         [WriteFREQ_HI 0xff, WriteCONTROL_REG 0x81, Clock 17]) \<noteq> 0"
proof -
  let ?w = "writeFREQ_HI 0xff WaveformGenerator_new"
  have h: "\<not> test ?w" "shift_register ?w \<noteq> 0" "shift_register ?w \<le> 0x7fffff"
    by (simp_all add: writeFREQ_HI_def WaveformGenerator_new_def wave_reset_def)
  have l: "list_all (writes_test False) [WriteFREQ_HI 0xff, WriteCONTROL_REG 0x81, Clock 17]"
    by simp
  have e: "shift_register ?w = 0x7ffff8"
    by (simp add: writeFREQ_HI_def WaveformGenerator_new_def wave_reset_def)
  from noise_register_never_zero [OF h, of 17 WaveformGenerator_new
      "[WriteFREQ_HI 0xff, WriteCONTROL_REG 0x81, Clock 17]"] l h(1) e
  show ?thesis by blast
qed


lemma wave_clock_held_in_test: "held_in_test w \<Longrightarrow> held_in_test (wave_clock delta_t w)"
  by (simp add: held_in_test_def wave_clock_def)

lemma synchronize_held_in_test: "held_in_test w \<Longrightarrow> held_in_test (synchronize src w)"
  by (simp add: held_in_test_def synchronize_def)

lemma div_mod_carry:
  assumes "p \<noteq> 0"
  shows "(a mod p + b) div p + a div p = (a + b) div (p::int)"
proof -
  have "a + b = (a mod p + b) + (a div p) * p" by simp
  then have "(a + b) div p = ((a mod p + b) + (a div p) * p) div p" by simp
  also have "\<dots> = a div p + (a mod p + b) div p"
    using assms by (rule div_mult_self1)
  finally show ?thesis by simp
qed

lemma attack_windows_closed_form:
  "state e = ATTACK \<Longrightarrow> exponential_counter e = 0 \<Longrightarrow> 0 \<le> rate_counter e
   \<Longrightarrow> rate_counter e < rate_counter_period ! unat (attack e) \<Longrightarrow> 0 < f \<Longrightarrow> 0 \<le> n
   \<Longrightarrow> envelope_counter e + (rate_counter e + n) div (rate_counter_period ! unat (attack e)) < 0xff
   \<Longrightarrow> env_windows f n e =
        e\<lparr>rate_counter := (rate_counter e + n) mod (rate_counter_period ! unat (attack e)),
          envelope_counter :=
            envelope_counter e + (rate_counter e + n) div (rate_counter_period ! unat (attack e))\<rparr>"
proof (induction f n e rule: env_windows.induct)
  case (1 f0 d e)
  define p where "p = rate_counter_period ! unat (attack e)"
  have p: "0 < p" unfolding p_def by (rule rate_counter_period_pos)
  note prems = "1.prems" [folded p_def]
  show ?case unfolding p_def [symmetric]
  proof (cases "d > 0")
    case True
    define w where "w = (if d < f0 then d else f0)"
    have w: "0 < w" "w \<le> d" using True prems(5) by (auto simp: w_def)
    have mono: "(rate_counter e + w) div p \<le> (rate_counter e + d) div p"
      using w p by (intro zdiv_mono1) auto
    define e1 where "e1 = e\<lparr>rate_counter := (rate_counter e + w) mod p,
          envelope_counter := envelope_counter e + (rate_counter e + w) div p\<rparr>"
    have c: "env_clock w e = e1"
      unfolding e1_def p_def
      using prems w mono by (intro attack_closed_form) (auto simp: p_def)
    have car: "((rate_counter e + w) mod p + (d - w)) div p + (rate_counter e + w) div p
        = (rate_counter e + d) div p"
      using div_mod_carry [of p "rate_counter e + w" "d - w"] p by simp
    have md: "((rate_counter e + w) mod p + (d - w)) mod p = (rate_counter e + d) mod p"
      by (simp add: mod_add_left_eq)
    have e1: "state e1 = ATTACK" "exponential_counter e1 = 0" "0 \<le> rate_counter e1"
      "rate_counter e1 < rate_counter_period ! unat (attack e1)" "0 \<le> d - w"
      "envelope_counter e1 + (rate_counter e1 + (d - w)) div (rate_counter_period ! unat (attack e1)) < 0xff"
      using prems p w car by (simp_all add: e1_def p_def [symmetric])
    have ih: "env_windows w (d - w) e1 =
        e1\<lparr>rate_counter := (rate_counter e1 + (d - w)) mod (rate_counter_period ! unat (attack e1)),
          envelope_counter := envelope_counter e1
            + (rate_counter e1 + (d - w)) div (rate_counter_period ! unat (attack e1))\<rparr>"
    proof -
      have nw: "\<not> w \<le> 0" using w(1) by simp
      note e1c = e1 [folded c]
      show ?thesis
        using "1.IH" [OF True w_def nw e1c(1,2,3,4) w(1) e1c(5,6)] unfolding c .
    qed
    have "env_windows w (d - w) e1 = e\<lparr>rate_counter := (rate_counter e + d) mod p,
          envelope_counter := envelope_counter e + (rate_counter e + d) div p\<rparr>"
      unfolding ih using car md by (simp add: e1_def p_def [symmetric])
    then show "env_windows f0 d e = e\<lparr>rate_counter := (rate_counter e + d) mod p,
          envelope_counter := envelope_counter e + (rate_counter e + d) div p\<rparr>"
      using True w
      by (subst env_windows.simps) (simp add: Let_def w_def [symmetric] c)
  next
    case False
    with prems have "d = 0" by simp
    then show "env_windows f0 d e = e\<lparr>rate_counter := (rate_counter e + d) mod p,
          envelope_counter := envelope_counter e + (rate_counter e + d) div p\<rparr>"
      using prems by (simp add: env_windows.simps)
  qed
qed

lemma SID_clock_attack:
  assumes "state e = ATTACK" "exponential_counter e = 0" "0 \<le> rate_counter e"
    "rate_counter e < rate_counter_period ! unat (attack e)" "0 \<le> d"
    "envelope_counter e + (rate_counter e + d) div (rate_counter_period ! unat (attack e)) < 0xff"
  shows "(envelope (voice1 s) = e \<longrightarrow> envelope (voice1 (SID_clock fc vo d s)) =
        e\<lparr>rate_counter := (rate_counter e + d) mod (rate_counter_period ! unat (attack e)),
          envelope_counter :=
            envelope_counter e + (rate_counter e + d) div (rate_counter_period ! unat (attack e))\<rparr>)
     \<and> (envelope (voice2 s) = e \<longrightarrow> envelope (voice2 (SID_clock fc vo d s)) =
        e\<lparr>rate_counter := (rate_counter e + d) mod (rate_counter_period ! unat (attack e)),
          envelope_counter :=
            envelope_counter e + (rate_counter e + d) div (rate_counter_period ! unat (attack e))\<rparr>)
     \<and> (envelope (voice3 s) = e \<longrightarrow> envelope (voice3 (SID_clock fc vo d s)) =
        e\<lparr>rate_counter := (rate_counter e + d) mod (rate_counter_period ! unat (attack e)),
          envelope_counter :=
            envelope_counter e + (rate_counter e + d) div (rate_counter_period ! unat (attack e))\<rparr>)"
proof (cases "d = 0")
  case True
  with assms show ?thesis by (simp add: SID_clock_def)
next
  case False
  have w: "env_windows (if bypass (sid_filter s) then d else 8) d e =
        e\<lparr>rate_counter := (rate_counter e + d) mod (rate_counter_period ! unat (attack e)),
          envelope_counter :=
            envelope_counter e + (rate_counter e + d) div (rate_counter_period ! unat (attack e))\<rparr>"
    using assms False by (intro attack_windows_closed_form) auto
  show ?thesis using SID_clock_envelope [OF False, of fc vo s] w by simp
qed

text \<open>
  Claim C6. A write to the control register with the test bit set zeroes the accumulator
  and the shift register and sets the test flag. While the flag is set both stay zero
  under every clock and synchronization, under every sequence of operations whose control
  writes keep the test bit set, and under \<open>SID::clock\<close>. The envelope generators advance
  meanwhile as they always do: \<open>SID::clock\<close> clocks each of them once per filter window,
  whatever the waveform generators hold, and a control write reaches both generators of
  the voice. So a voice held in test whose envelope generator is in attack, with rate
  counter below the selected period \<open>p\<close>, has after \<open>d\<close> cycles of \<open>SID::clock\<close> an
  accumulator and a shift register that are still zero and an envelope counter that has
  gone up by \<open>(rate_counter + d) div p\<close> (as long as this stays below 0xff). A control
  write that clears the test bit of a generator under test sets the shift register to
  0x7ffff8.
\<close>

theorem test_holds_generator_at_zero:
  "(control AND 0x08 \<noteq> 0 \<longrightarrow> held_in_test (wave_writeCONTROL_REG control w))
   \<and> (held_in_test w \<longrightarrow> held_in_test (wave_clock delta_t w) \<and> held_in_test (synchronize src w))
   \<and> (held_in_test w \<and> list_all (writes_test True) ops
        \<longrightarrow> held_in_test (foldl wave_apply w ops))
   \<and> (held_in_test (wave (voice1 s)) \<longrightarrow> held_in_test (wave (voice1 (SID_clock fc vo d s))))
   \<and> (held_in_test (wave (voice2 s)) \<longrightarrow> held_in_test (wave (voice2 (SID_clock fc vo d s))))
   \<and> (held_in_test (wave (voice3 s)) \<longrightarrow> held_in_test (wave (voice3 (SID_clock fc vo d s))))
   \<and> envelope (voice1 (SID_clock fc vo d s))
       = (if d = 0 then envelope (voice1 s)
          else env_windows (if bypass (sid_filter s) then d else 8) d (envelope (voice1 s)))
   \<and> envelope (voice2 (SID_clock fc vo d s))
       = (if d = 0 then envelope (voice2 s)
          else env_windows (if bypass (sid_filter s) then d else 8) d (envelope (voice2 s)))
   \<and> envelope (voice3 (SID_clock fc vo d s))
       = (if d = 0 then envelope (voice3 s)
          else env_windows (if bypass (sid_filter s) then d else 8) d (envelope (voice3 s)))
   \<and> (let e = envelope (voice1 s); p = rate_counter_period ! unat (attack e)
      in held_in_test (wave (voice1 s)) \<and> state e = ATTACK \<and> exponential_counter e = 0
           \<and> 0 \<le> rate_counter e \<and> rate_counter e < p \<and> 0 \<le> d
           \<and> envelope_counter e + (rate_counter e + d) div p < 0xff
         \<longrightarrow> held_in_test (wave (voice1 (SID_clock fc vo d s)))
           \<and> envelope_counter (envelope (voice1 (SID_clock fc vo d s)))
               = envelope_counter e + (rate_counter e + d) div p
           \<and> rate_counter (envelope (voice1 (SID_clock fc vo d s))) = (rate_counter e + d) mod p)
   \<and> (let e = envelope (voice2 s); p = rate_counter_period ! unat (attack e)
      in held_in_test (wave (voice2 s)) \<and> state e = ATTACK \<and> exponential_counter e = 0
           \<and> 0 \<le> rate_counter e \<and> rate_counter e < p \<and> 0 \<le> d
           \<and> envelope_counter e + (rate_counter e + d) div p < 0xff
         \<longrightarrow> held_in_test (wave (voice2 (SID_clock fc vo d s)))
           \<and> envelope_counter (envelope (voice2 (SID_clock fc vo d s)))
               = envelope_counter e + (rate_counter e + d) div p
           \<and> rate_counter (envelope (voice2 (SID_clock fc vo d s))) = (rate_counter e + d) mod p)
   \<and> (let e = envelope (voice3 s); p = rate_counter_period ! unat (attack e)
      in held_in_test (wave (voice3 s)) \<and> state e = ATTACK \<and> exponential_counter e = 0
           \<and> 0 \<le> rate_counter e \<and> rate_counter e < p \<and> 0 \<le> d
           \<and> envelope_counter e + (rate_counter e + d) div p < 0xff
         \<longrightarrow> held_in_test (wave (voice3 (SID_clock fc vo d s)))
           \<and> envelope_counter (envelope (voice3 (SID_clock fc vo d s)))
               = envelope_counter e + (rate_counter e + d) div p
           \<and> rate_counter (envelope (voice3 (SID_clock fc vo d s))) = (rate_counter e + d) mod p)
   \<and> envelope (voice_writeCONTROL_REG control v) = env_writeCONTROL_REG control (envelope v)
   \<and> wave (voice_writeCONTROL_REG control v) = wave_writeCONTROL_REG control (wave v)
   \<and> (test w \<and> control AND 0x08 = 0
        \<longrightarrow> shift_register (wave_writeCONTROL_REG control w) = 0x7ffff8
          \<and> \<not> test (wave_writeCONTROL_REG control w))"
proof -
  have a: "control AND 0x08 \<noteq> 0 \<longrightarrow> held_in_test (wave_writeCONTROL_REG control w)"
    by (simp add: held_in_test_def wave_writeCONTROL_REG_def Let_def)
  have b: "held_in_test w \<longrightarrow> held_in_test (wave_clock delta_t w) \<and> held_in_test (synchronize src w)"
    by (simp add: wave_clock_held_in_test synchronize_held_in_test)
  have c: "held_in_test w \<and> list_all (writes_test True) ops
        \<longrightarrow> held_in_test (foldl wave_apply w ops)"
    by (simp add: wave_run_held_in_test)
  note d = SID_clock_wave_invariant [of held_in_test, OF wave_clock_held_in_test
      synchronize_held_in_test, of s fc vo d]
  have e: "envelope (voice1 (SID_clock fc vo d s))
       = (if d = 0 then envelope (voice1 s)
          else env_windows (if bypass (sid_filter s) then d else 8) d (envelope (voice1 s)))"
    "envelope (voice2 (SID_clock fc vo d s))
       = (if d = 0 then envelope (voice2 s)
          else env_windows (if bypass (sid_filter s) then d else 8) d (envelope (voice2 s)))"
    "envelope (voice3 (SID_clock fc vo d s))
       = (if d = 0 then envelope (voice3 s)
          else env_windows (if bypass (sid_filter s) then d else 8) d (envelope (voice3 s)))"
    using SID_clock_envelope [of d fc vo s] by (auto simp: SID_clock_def)
  have f: "envelope (voice_writeCONTROL_REG control v) = env_writeCONTROL_REG control (envelope v)"
    "wave (voice_writeCONTROL_REG control v) = wave_writeCONTROL_REG control (wave v)"
    by (simp_all add: voice_writeCONTROL_REG_def)
  have g: "test w \<and> control AND 0x08 = 0
        \<longrightarrow> shift_register (wave_writeCONTROL_REG control w) = 0x7ffff8
          \<and> \<not> test (wave_writeCONTROL_REG control w)"
    by (simp add: wave_writeCONTROL_REG_def Let_def)
  have h1: "(let e = envelope (voice1 s); p = rate_counter_period ! unat (attack e)
      in held_in_test (wave (voice1 s)) \<and> state e = ATTACK \<and> exponential_counter e = 0
           \<and> 0 \<le> rate_counter e \<and> rate_counter e < p \<and> 0 \<le> d
           \<and> envelope_counter e + (rate_counter e + d) div p < 0xff
         \<longrightarrow> held_in_test (wave (voice1 (SID_clock fc vo d s)))
           \<and> envelope_counter (envelope (voice1 (SID_clock fc vo d s)))
               = envelope_counter e + (rate_counter e + d) div p
           \<and> rate_counter (envelope (voice1 (SID_clock fc vo d s))) = (rate_counter e + d) mod p)"
    using d SID_clock_attack [of "envelope (voice1 s)" d s fc vo] by (simp add: Let_def)
  have h2: "(let e = envelope (voice2 s); p = rate_counter_period ! unat (attack e)
      in held_in_test (wave (voice2 s)) \<and> state e = ATTACK \<and> exponential_counter e = 0
           \<and> 0 \<le> rate_counter e \<and> rate_counter e < p \<and> 0 \<le> d
           \<and> envelope_counter e + (rate_counter e + d) div p < 0xff
         \<longrightarrow> held_in_test (wave (voice2 (SID_clock fc vo d s)))
           \<and> envelope_counter (envelope (voice2 (SID_clock fc vo d s)))
               = envelope_counter e + (rate_counter e + d) div p
           \<and> rate_counter (envelope (voice2 (SID_clock fc vo d s))) = (rate_counter e + d) mod p)"
    using d SID_clock_attack [of "envelope (voice2 s)" d s fc vo] by (simp add: Let_def)
  have h3: "(let e = envelope (voice3 s); p = rate_counter_period ! unat (attack e)
      in held_in_test (wave (voice3 s)) \<and> state e = ATTACK \<and> exponential_counter e = 0
           \<and> 0 \<le> rate_counter e \<and> rate_counter e < p \<and> 0 \<le> d
           \<and> envelope_counter e + (rate_counter e + d) div p < 0xff
         \<longrightarrow> held_in_test (wave (voice3 (SID_clock fc vo d s)))
           \<and> envelope_counter (envelope (voice3 (SID_clock fc vo d s)))
               = envelope_counter e + (rate_counter e + d) div p
           \<and> rate_counter (envelope (voice3 (SID_clock fc vo d s))) = (rate_counter e + d) mod p)"
    using d SID_clock_attack [of "envelope (voice3 s)" d s fc vo] by (simp add: Let_def)
  from a b c d e f g h1 h2 h3 show ?thesis by blast
qed

theorem test_holds_generator_at_zero_witness:
  "(0x88 :: reg8) AND 0x08 \<noteq> 0
   \<and> test (wave_writeCONTROL_REG 0x88 (writeFREQ_HI 0x10 WaveformGenerator_new))
   \<and> accumulator (wave_clock 1000 (wave_writeCONTROL_REG 0x88 (writeFREQ_HI 0x10 WaveformGenerator_new))) = 0
   \<and> shift_register (wave_clock 1000 (wave_writeCONTROL_REG 0x88 (writeFREQ_HI 0x10 WaveformGenerator_new))) = 0
   \<and> (0x80 :: reg8) AND 0x08 = 0
   \<and> shift_register (wave_writeCONTROL_REG 0x80
         (wave_writeCONTROL_REG 0x88 (writeFREQ_HI 0x10 WaveformGenerator_new))) = 0x7ffff8
   \<and> test (wave (voice1 (SID_new\<lparr>voice1 := voice_writeCONTROL_REG 0x09 (voice1 SID_new)\<rparr>)))
   \<and> state (envelope (voice1 (SID_new\<lparr>voice1 := voice_writeCONTROL_REG 0x09 (voice1 SID_new)\<rparr>)))
       = ATTACK
   \<and> envelope_counter (envelope (voice1 (SID_new\<lparr>voice1 := voice_writeCONTROL_REG 0x09 (voice1 SID_new)\<rparr>)))
       = 0
   \<and> envelope_counter (envelope (voice1
        (SID_clock (\<lambda>dt v1 v2 v3 f. f) (\<lambda>v. 0) 100
           (SID_new\<lparr>voice1 := voice_writeCONTROL_REG 0x09 (voice1 SID_new)\<rparr>)))) = 11
   \<and> rate_counter (envelope (voice1
        (SID_clock (\<lambda>dt v1 v2 v3 f. f) (\<lambda>v. 0) 100
           (SID_new\<lparr>voice1 := voice_writeCONTROL_REG 0x09 (voice1 SID_new)\<rparr>)))) = 1
   \<and> accumulator (wave (voice1
        (SID_clock (\<lambda>dt v1 v2 v3 f. f) (\<lambda>v. 0) 100
           (SID_new\<lparr>voice1 := voice_writeCONTROL_REG 0x09 (voice1 SID_new)\<rparr>)))) = 0
   \<and> shift_register (wave (voice1
        (SID_clock (\<lambda>dt v1 v2 v3 f. f) (\<lambda>v. 0) 100
           (SID_new\<lparr>voice1 := voice_writeCONTROL_REG 0x09 (voice1 SID_new)\<rparr>)))) = 0"
proof -
  let ?base = "writeFREQ_HI 0x10 WaveformGenerator_new"
  let ?held = "wave_writeCONTROL_REG 0x88 ?base"
  let ?s = "SID_new\<lparr>voice1 := voice_writeCONTROL_REG 0x09 (voice1 SID_new)\<rparr>"
  let ?fc = "\<lambda>(dt::cycle_count) (v1::int) (v2::int) (v3::int) (f::Filter). f"
  let ?vo = "\<lambda>v::Voice. (0::int)"
  have c8: "(0x88 :: reg8) AND 0x08 \<noteq> 0" and c0: "(0x80 :: reg8) AND 0x08 = 0" by simp_all
  have h: "held_in_test ?held"
    using test_holds_generator_at_zero [where control = "0x88" and w = ?base] c8 by blast
  then have t: "test ?held" by (simp add: held_in_test_def)
  from h have "held_in_test (wave_clock 1000 ?held)"
    using test_holds_generator_at_zero [where w = ?held and delta_t = 1000] by blast
  then have z: "accumulator (wave_clock 1000 ?held) = 0" "shift_register (wave_clock 1000 ?held) = 0"
    by (simp_all add: held_in_test_def)
  have r: "shift_register (wave_writeCONTROL_REG 0x80 ?held) = 0x7ffff8"
    using test_holds_generator_at_zero [where control = "0x80" and w = ?held] t c0 by blast
  have en: "envelope (voice1 ?s) = \<lparr>rate_counter = 0, exponential_counter = 0,
      envelope_counter = 0, attack = 0, decay = 0, sustain = 0, release = 0, gate = True,
      state = ATTACK\<rparr>"
    by (simp add: SID_new_def Voice_new_def voice_writeCONTROL_REG_def env_writeCONTROL_REG_def
          EnvelopeGenerator_new_def env_reset_def Let_def)
  have wv: "held_in_test (wave (voice1 ?s))"
    by (simp add: SID_new_def Voice_new_def voice_writeCONTROL_REG_def wave_writeCONTROL_REG_def
          WaveformGenerator_new_def wave_reset_def held_in_test_def Let_def)
  have p9: "rate_counter_period ! 0 = 9" by (simp add: rate_counter_period_def)
  have imp: "let e = envelope (voice1 ?s); p = rate_counter_period ! unat (attack e)
      in held_in_test (wave (voice1 ?s)) \<and> state e = ATTACK \<and> exponential_counter e = 0
           \<and> 0 \<le> rate_counter e \<and> rate_counter e < p \<and> 0 \<le> (100::int)
           \<and> envelope_counter e + (rate_counter e + 100) div p < 0xff
         \<longrightarrow> held_in_test (wave (voice1 (SID_clock ?fc ?vo 100 ?s)))
           \<and> envelope_counter (envelope (voice1 (SID_clock ?fc ?vo 100 ?s)))
               = envelope_counter e + (rate_counter e + 100) div p
           \<and> rate_counter (envelope (voice1 (SID_clock ?fc ?vo 100 ?s)))
               = (rate_counter e + 100) mod p"
    using test_holds_generator_at_zero [where s = ?s and d = 100 and fc = ?fc and vo = ?vo]
    by blast
  have adv: "held_in_test (wave (voice1 (SID_clock ?fc ?vo 100 ?s)))
      \<and> envelope_counter (envelope (voice1 (SID_clock ?fc ?vo 100 ?s))) = 11
      \<and> rate_counter (envelope (voice1 (SID_clock ?fc ?vo 100 ?s))) = 1"
    using imp wv unfolding Let_def en by (simp add: p9)
  then have zs: "accumulator (wave (voice1 (SID_clock ?fc ?vo 100 ?s))) = 0"
      "shift_register (wave (voice1 (SID_clock ?fc ?vo 100 ?s))) = 0"
    by (simp_all add: held_in_test_def)
  have st: "test (wave (voice1 ?s))" "state (envelope (voice1 ?s)) = ATTACK"
      "envelope_counter (envelope (voice1 ?s)) = 0"
    using wv en by (simp_all add: held_in_test_def)
  from c8 t z c0 r st adv zs show ?thesis by blast
qed


section \<open>The output of the external filter\<close>

text \<open>
  \<open>output\<close> returns a \<open>short\<close>: the \<open>int\<close> value \<open>(vlp - vhp) >> 11\<close> is converted.
  Whenever the shifted difference lies in the signed 16 bit range, the result is the
  shifted difference itself, which is also its clamped value.
\<close>

lemma extfilt_output_truncates:
  "sint (extfilt_output f) = signed_take_bit 15 ((vlp f - vhp f) div 2 ^ 11)
   \<and> (- 32768 \<le> (vlp f - vhp f) div 2 ^ 11 \<and> (vlp f - vhp f) div 2 ^ 11 \<le> 32767
        \<longrightarrow> sint (extfilt_output f) = (vlp f - vhp f) div 2 ^ 11
          \<and> sint (extfilt_output f) = clamped_output f)"
proof -
  have a: "sint (extfilt_output f) = signed_take_bit 15 ((vlp f - vhp f) div 2 ^ 11)"
    by (simp add: extfilt_output_def sint_sbintrunc')
  have b: "signed_take_bit 15 q = q" if "- 32768 \<le> q" "q \<le> 32767" for q :: int
    using that by (simp add: signed_take_bit_int_eq_self_iff)
  show ?thesis using a b by (auto simp: clamped_output_def)
qed

lemma extfilt_output_truncates_instance:
  "- 32768 \<le> (vlp \<lparr>enabled = True, vlp = - 67082620, vhp = - 418339\<rparr>
                - vhp \<lparr>enabled = True, vlp = - 67082620, vhp = - 418339\<rparr>) div 2 ^ 11
   \<and> (vlp \<lparr>enabled = True, vlp = - 67082620, vhp = - 418339\<rparr>
                - vhp \<lparr>enabled = True, vlp = - 67082620, vhp = - 418339\<rparr>) div 2 ^ 11 \<le> 32767
   \<and> sint (extfilt_output \<lparr>enabled = True, vlp = - 67082620, vhp = - 418339\<rparr>) = - 32551
   \<and> clamped_output \<lparr>enabled = True, vlp = - 67082620, vhp = - 418339\<rparr> = - 32551"
proof -
  let ?f = "\<lparr>enabled = True, vlp = - 67082620, vhp = - 418339\<rparr>"
  have q: "(vlp ?f - vhp ?f) div 2 ^ 11 = - 32551" by simp
  then have h: "- 32768 \<le> (vlp ?f - vhp ?f) div 2 ^ 11 \<and> (vlp ?f - vhp ?f) div 2 ^ 11 \<le> 32767"
    by simp
  with extfilt_output_truncates [of ?f]
  have "sint (extfilt_output ?f) = (vlp ?f - vhp ?f) div 2 ^ 11
      \<and> sint (extfilt_output ?f) = clamped_output ?f" by blast
  with q h show ?thesis by simp
qed

text \<open>
  The header calls the states 27 bit values and says that \<open>output\<close> shifts down from 27
  to 16 bits. A filter reset to zero and clocked for 80 cycles with the lowest input and
  then for 70 cycles with the highest input holds states whose difference, 67133321, no
  longer fits 27 bits with a sign.
\<close>

lemma after_80: "extfilt_clock 80 (- 32768) \<lparr>enabled = True, vlp = 0, vhp = 0\<rparr>
   = \<lparr>enabled = True, vlp = - 67082620, vhp = - 418339\<rparr>"
  by (simp add: extfilt_eval)

lemma after_70: "extfilt_clock 70 32767 \<lparr>enabled = True, vlp = - 67082620, vhp = - 418339\<rparr>
   = \<lparr>enabled = True, vlp = 66966877, vhp = - 166444\<rparr>"
  by (simp add: extfilt_eval)

text \<open>
  Claim C8. The output is \<open>(vlp - vhp) >> 11\<close> clamped to the signed 16 bit range. The code
  has no saturation and falls short of the claim in the state above: the shifted
  difference is 32779, its clamped value is 32767, and \<open>output\<close> returns -32757.
\<close>

theorem extfilt_output_not_clamped:
  "sint (extfilt_output (extfilt_clock 70 32767
      (extfilt_clock 80 (- 32768) \<lparr>enabled = True, vlp = 0, vhp = 0\<rparr>))) = - 32757
   \<and> (vlp (extfilt_clock 70 32767
         (extfilt_clock 80 (- 32768) \<lparr>enabled = True, vlp = 0, vhp = 0\<rparr>))
       - vhp (extfilt_clock 70 32767
         (extfilt_clock 80 (- 32768) \<lparr>enabled = True, vlp = 0, vhp = 0\<rparr>))) div 2 ^ 11 = 32779
   \<and> clamped_output (extfilt_clock 70 32767
      (extfilt_clock 80 (- 32768) \<lparr>enabled = True, vlp = 0, vhp = 0\<rparr>)) = 32767"
  unfolding after_80 after_70 by (simp add: extfilt_output_def clamped_output_def)


section \<open>The rate counter after a write to ATTACK_DECAY\<close>

lemma attack_counts_up:
  assumes "state e = ATTACK" "envelope_counter e < 0xff" "0 \<le> rate_counter e"
    "0 \<le> n" "rate_counter e + n < rate_counter_period ! unat (attack e)"
  shows "env_clock n e = e\<lparr>rate_counter := rate_counter e + n\<rparr>"
proof (cases "n = 0")
  case True
  with assms show ?thesis by (simp add: env_clock_def step_envelope_def Let_def)
next
  case False
  have "(rate_counter e + n) AND 0x7fff = rate_counter e + n"
    using assms rate_counter_period_le [of "attack e"] by (intro and_7fff_id) auto
  with False assms show ?thesis
    by (simp add: env_clock_def step_envelope_def Let_def step_envelope_loop.simps)
qed

lemma attack_windows_count_up:
  "state e = ATTACK \<Longrightarrow> envelope_counter e < 0xff \<Longrightarrow> 0 \<le> rate_counter e \<Longrightarrow> 0 < f
   \<Longrightarrow> rate_counter e + n < rate_counter_period ! unat (attack e)
   \<Longrightarrow> env_windows f n e = (if n > 0 then e\<lparr>rate_counter := rate_counter e + n\<rparr> else e)"
proof (induction f n e rule: env_windows.induct)
  case (1 f0 d e)
  show ?case
  proof (cases "d > 0")
    case True
    define w where "w = (if d < f0 then d else f0)"
    have w: "0 < w" "w \<le> d" using True "1.prems"(4) by (auto simp: w_def)
    have c: "env_clock w e = e\<lparr>rate_counter := rate_counter e + w\<rparr>"
      using "1.prems" w by (intro attack_counts_up) auto
    have "env_windows w (d - w) (env_clock w e)
        = (if d - w > 0 then (env_clock w e)\<lparr>rate_counter := rate_counter (env_clock w e) + (d - w)\<rparr>
           else env_clock w e)"
      using "1.IH" [OF True w_def] w "1.prems" unfolding c by simp
    then show ?thesis
      using True w unfolding c
      by (subst env_windows.simps) (auto simp: Let_def w_def [symmetric] c)
  next
    case False
    then show ?thesis by (simp add: env_windows.simps)
  qed
qed


lemma env_windows_full_window:
  "0 < f \<Longrightarrow> f \<le> d \<Longrightarrow> env_windows f d e = env_windows f (d - f) (env_clock f e)"
  by (subst env_windows.simps) (simp add: Let_def)

lemma env_windows_whole:
  assumes "0 < f" "0 \<le> b"
  shows "env_windows f (f * int k + b) e = env_windows f b ((env_clock f ^^ k) e)"
proof (induction k arbitrary: e)
  case 0
  show ?case by simp
next
  case (Suc k)
  have fk: "0 \<le> f * int k" using assms(1) by simp
  have sk: "f * int (Suc k) = f * int k + f" by (simp add: algebra_simps)
  have le: "f \<le> f * int (Suc k) + b" unfolding sk using assms fk by linarith
  have eq: "f * int (Suc k) + b - f = f * int k + b" unfolding sk by linarith
  have "env_windows f (f * int (Suc k) + b) e
      = env_windows f (f * int k + b) (env_clock f e)"
    using env_windows_full_window [OF assms(1) le, of e] unfolding eq .
  also have "\<dots> = env_windows f b ((env_clock f ^^ k) (env_clock f e))" by (rule Suc.IH)
  finally show ?case by (simp only: funpow_Suc_right o_apply)
qed

lemma env_windows_split:
  assumes "0 < f" "0 \<le> b"
  shows "env_windows f (f * int k + b) e = env_windows f b (env_windows f (f * int k) e)"
  using env_windows_whole [OF assms, of k e] env_windows_whole [OF assms(1), of 0 k e]
  by (simp add: env_windows.simps [of f 0])

lemma S2_gate_on_eq: "S2_gate_on = \<lparr>rate_counter = 0, exponential_counter = 0,
   envelope_counter = 0, attack = 0, decay = 0, sustain = 0, release = 0, gate = True,
   state = ATTACK\<rparr>"
  by (simp add: S2_gate_on_def env_writeCONTROL_REG_def writeATTACK_DECAY_def
        EnvelopeGenerator_new_def env_reset_def Let_def)

lemma S2_rewritten_eq: "S2_rewritten = \<lparr>rate_counter = 8, exponential_counter = 0,
   envelope_counter = 0, attack = 15, decay = 0, sustain = 0, release = 0, gate = True,
   state = ATTACK\<rparr>"
  unfolding S2_rewritten_def S2_gate_on_eq by (simp add: env_eval writeATTACK_DECAY_def)

lemma S2_reversed_eq: "S2_reversed = \<lparr>rate_counter = 100, exponential_counter = 0,
   envelope_counter = 0, attack = 0, decay = 0, sustain = 0, release = 0, gate = True,
   state = ATTACK\<rparr>"
  by (simp add: S2_reversed_def env_eval writeATTACK_DECAY_def env_writeCONTROL_REG_def
        EnvelopeGenerator_new_def env_reset_def)

lemma S2_period: "rate_counter_period ! unat (attack S2_rewritten) = 31252"
  unfolding S2_rewritten_eq by (simp add: rate_counter_period_def)

lemma S2_windows_31240: "env_windows 8 31240 S2_rewritten = S2_rewritten\<lparr>rate_counter := 31248\<rparr>"
  using attack_windows_count_up [of S2_rewritten 8 31240] S2_period
  by (simp add: S2_rewritten_eq)

text \<open>
  Counterexample to claim C2 as stated: at the write the rate counter is 8, below the new
  comparison value 31252. It reaches it 31244 cycles later, so after 31251 cycles the
  envelope counter is 1 and the rate counter has counted on to 7, whether the generator is
  clocked in one call or in the windows of eight cycles \<open>SID::clock\<close> uses.
\<close>

theorem S2_envelope_steps_before_31251:
  "rate_counter S2_rewritten = 8
   \<and> envelope_counter (env_clock 31251 S2_rewritten) = 1
   \<and> rate_counter (env_clock 31251 S2_rewritten) = 7
   \<and> envelope_counter (env_windows 8 31251 S2_rewritten) = 1"
proof -
  have a: "env_clock 31251 S2_rewritten = \<lparr>rate_counter = 7, exponential_counter = 0,
     envelope_counter = 1, attack = 15, decay = 0, sustain = 0, release = 0, gate = True,
     state = ATTACK\<rparr>"
    unfolding S2_rewritten_eq by (simp add: env_eval)
  have "env_windows 8 31251 S2_rewritten = env_windows 8 11 (env_windows 8 31240 S2_rewritten)"
    using env_windows_split [of 8 11 3905 S2_rewritten] by simp
  also have "\<dots> = env_windows 8 11 (S2_rewritten\<lparr>rate_counter := 31248\<rparr>)"
    by (simp only: S2_windows_31240)
  also have "\<dots> = \<lparr>rate_counter = 7, exponential_counter = 0,
     envelope_counter = 1, attack = 15, decay = 0, sustain = 0, release = 0, gate = True,
     state = ATTACK\<rparr>"
    unfolding S2_rewritten_eq by (simp add: env_eval)
  finally show ?thesis using a by (simp add: S2_rewritten_eq)
qed


lemma delay_bug_wait:
  assumes "state e = ATTACK" "envelope_counter e < 0xff"
    "rate_counter_period ! unat (attack e) \<le> rate_counter e"
    "0 \<le> n" "n < 0x8000 + rate_counter_period ! unat (attack e) - rate_counter e"
  shows "envelope_counter (env_clock n e) = envelope_counter e"
proof (cases "n = 0")
  case True
  with assms show ?thesis by (simp add: env_clock_def step_envelope_def Let_def)
next
  case False
  with assms show ?thesis
    by (simp add: env_clock_def step_envelope_def Let_def step_envelope_loop.simps)
qed

lemma delay_bug_step:
  assumes "state e = ATTACK" "envelope_counter e < 0xff" "exponential_counter e = 0"
    "rate_counter_period ! unat (attack e) \<le> rate_counter e" "rate_counter e \<le> 0x7fff"
  shows "envelope_counter
           (env_clock (0x8000 + rate_counter_period ! unat (attack e) - rate_counter e) e)
         = envelope_counter e + 1
       \<and> rate_counter
           (env_clock (0x8000 + rate_counter_period ! unat (attack e) - rate_counter e) e) = 0"
  using assms rate_counter_period_pos [of "attack e"]
  by (simp add: env_clock_def step_envelope_def Let_def step_envelope_loop.simps
        exponential_counter_period_0)

text \<open>
  The wrap through 0x8000 is what the code does when a generator in the attack state has
  its rate counter at or above the selected comparison value: the envelope counter then
  steps after exactly \<open>0x8000 + period - rate_counter\<close> cycles and not before. With the
  two rates of scenario S2 exchanged (attack 15, gate on, 100 cycles, attack 0) the step
  comes 32677 cycles after the write.
\<close>

lemma delay_bug_when_period_lowered:
  "(state e = ATTACK \<and> envelope_counter e < 0xff \<and> exponential_counter e = 0
        \<and> rate_counter_period ! unat (attack e) \<le> rate_counter e \<and> rate_counter e \<le> 0x7fff
      \<longrightarrow> (\<forall>n. 0 \<le> n
               \<and> n < 0x8000 + rate_counter_period ! unat (attack e) - rate_counter e
             \<longrightarrow> envelope_counter (env_clock n e) = envelope_counter e)
        \<and> envelope_counter
             (env_clock (0x8000 + rate_counter_period ! unat (attack e) - rate_counter e) e)
            = envelope_counter e + 1)
   \<and> rate_counter S2_reversed = 100
   \<and> rate_counter_period ! unat (attack S2_reversed) = 9
   \<and> envelope_counter (env_clock 32676 S2_reversed) = 0
   \<and> envelope_counter (env_clock 32677 S2_reversed) = 1"
proof -
  have c: "state e = ATTACK \<and> envelope_counter e < 0xff \<and> exponential_counter e = 0
        \<and> rate_counter_period ! unat (attack e) \<le> rate_counter e \<and> rate_counter e \<le> 0x7fff
      \<longrightarrow> (\<forall>n. 0 \<le> n
               \<and> n < 0x8000 + rate_counter_period ! unat (attack e) - rate_counter e
             \<longrightarrow> envelope_counter (env_clock n e) = envelope_counter e)
        \<and> envelope_counter
             (env_clock (0x8000 + rate_counter_period ! unat (attack e) - rate_counter e) e)
            = envelope_counter e + 1"
    using delay_bug_wait [of e] delay_bug_step [of e] by blast
  have h: "state S2_reversed = ATTACK" "envelope_counter S2_reversed < 0xff"
    "exponential_counter S2_reversed = 0" "rate_counter S2_reversed = 100"
    "rate_counter_period ! unat (attack S2_reversed) = 9" "envelope_counter S2_reversed = 0"
    "rate_counter S2_reversed \<le> 0x7fff"
    unfolding S2_reversed_eq by (simp_all add: rate_counter_period_def)
  have w: "envelope_counter (env_clock 32676 S2_reversed) = envelope_counter S2_reversed"
    using delay_bug_wait [of S2_reversed 32676] h by simp
  have s: "envelope_counter (env_clock 32677 S2_reversed) = envelope_counter S2_reversed + 1"
    using delay_bug_step [of S2_reversed] h by simp
  from c h w s show ?thesis by simp
qed

text \<open>
  Claim C2, amended. After reset, ATTACK_DECAY = 0x00, gate on, 8 cycles and
  ATTACK_DECAY = 0xF0, the rate counter is 8 and the comparison value is 31252. Clocking
  a further 31243 cycles leaves the envelope counter at 0, and on the next cycle it
  increments to 1: the rate counter counts from 8 straight up to the comparison value,
  being \<open>8 + n\<close> after \<open>n\<close> cycles, without wrapping through 0x8000. This holds whether
  the generator is clocked in one call or in the windows of eight cycles \<open>SID::clock\<close>
  uses.
\<close>

theorem S2_first_step_after_31244:
  "rate_counter S2_rewritten = 8
   \<and> envelope_counter S2_rewritten = 0
   \<and> rate_counter_period ! unat (attack S2_rewritten) = 31252
   \<and> (\<forall>n. 0 \<le> n \<and> n \<le> 31243 \<longrightarrow>
         envelope_counter (env_clock n S2_rewritten) = 0
       \<and> rate_counter (env_clock n S2_rewritten) = 8 + n
       \<and> envelope_counter (env_windows 8 n S2_rewritten) = 0
       \<and> rate_counter (env_windows 8 n S2_rewritten) = 8 + n)
   \<and> envelope_counter (env_clock 1 (env_clock 31243 S2_rewritten)) = 1
   \<and> rate_counter (env_clock 1 (env_clock 31243 S2_rewritten)) = 0
   \<and> envelope_counter (env_clock 31244 S2_rewritten) = 1
   \<and> envelope_counter (env_windows 8 1 (env_windows 8 31243 S2_rewritten)) = 1
   \<and> envelope_counter (env_windows 8 31244 S2_rewritten) = 1"
proof -
  have up: "env_clock n S2_rewritten = S2_rewritten\<lparr>rate_counter := 8 + n\<rparr>
      \<and> env_windows 8 n S2_rewritten = S2_rewritten\<lparr>rate_counter := 8 + n\<rparr>"
    if "0 \<le> n" "n \<le> 31243" for n
    using that attack_counts_up [of S2_rewritten n] attack_windows_count_up [of S2_rewritten 8 n]
      S2_period
    by (auto simp: S2_rewritten_eq)
  have a: "\<forall>n. 0 \<le> n \<and> n \<le> 31243 \<longrightarrow>
         envelope_counter (env_clock n S2_rewritten) = 0
       \<and> rate_counter (env_clock n S2_rewritten) = 8 + n
       \<and> envelope_counter (env_windows 8 n S2_rewritten) = 0
       \<and> rate_counter (env_windows 8 n S2_rewritten) = 8 + n"
    using up by (simp add: S2_rewritten_eq)
  have l: "env_clock 31243 S2_rewritten = S2_rewritten\<lparr>rate_counter := 31251\<rparr>"
    "env_windows 8 31243 S2_rewritten = S2_rewritten\<lparr>rate_counter := 31251\<rparr>"
    using up [of 31243] by simp_all
  have w1: "env_windows 8 1 x = env_clock 1 x" for x
    by (simp add: env_windows.simps [of 8 1] env_windows.simps [of 1 0] Let_def)
  have b: "env_clock 1 (S2_rewritten\<lparr>rate_counter := 31251\<rparr>)
      = \<lparr>rate_counter = 0, exponential_counter = 0, envelope_counter = 1, attack = 15,
          decay = 0, sustain = 0, release = 0, gate = True, state = ATTACK\<rparr>"
    unfolding S2_rewritten_eq
    by (simp add: env_clock_def step_envelope_def Let_def step_envelope_loop.simps
          exponential_counter_period_0 rate_counter_period_def)
  have h: "state S2_rewritten = ATTACK" "exponential_counter S2_rewritten = 0"
    "0 \<le> rate_counter S2_rewritten"
    "rate_counter S2_rewritten < rate_counter_period ! unat (attack S2_rewritten)"
    "envelope_counter S2_rewritten
       + (rate_counter S2_rewritten + 31244) div (rate_counter_period ! unat (attack S2_rewritten))
     < 0xff"
    unfolding S2_period by (simp_all add: S2_rewritten_eq)
  have one: "envelope_counter (env_clock 31244 S2_rewritten) = 1"
    using attack_closed_form [OF h(1,2,3,4) _ h(5)]
    unfolding S2_period by (simp add: S2_rewritten_eq)
  have onew: "envelope_counter (env_windows 8 31244 S2_rewritten) = 1"
    using attack_windows_closed_form [OF h(1,2,3,4) _ _ h(5), of 8]
    unfolding S2_period by (simp add: S2_rewritten_eq)
  have r: "rate_counter S2_rewritten = 8" "envelope_counter S2_rewritten = 0"
    by (simp_all add: S2_rewritten_eq)
  from r S2_period a one onew show ?thesis unfolding l w1 b by simp
qed

theorem S2_first_step_after_31244_witness:
  "(0::int) \<le> 31243
   \<and> envelope_counter (env_clock 31243 S2_rewritten) = 0
   \<and> rate_counter (env_clock 31243 S2_rewritten) = 31251
   \<and> envelope_counter (env_windows 8 31243 S2_rewritten) = 0
   \<and> envelope_counter (env_clock 1 (env_clock 31243 S2_rewritten)) = 1
   \<and> envelope_counter (env_clock 31244 S2_rewritten) = 1"
proof -
  note t = S2_first_step_after_31244
  from t have "envelope_counter (env_clock 31243 S2_rewritten) = 0
      \<and> rate_counter (env_clock 31243 S2_rewritten) = 8 + 31243
      \<and> envelope_counter (env_windows 8 31243 S2_rewritten) = 0" by simp
  moreover from t have "envelope_counter (env_clock 1 (env_clock 31243 S2_rewritten)) = 1"
    by blast
  moreover from t have "envelope_counter (env_clock 31244 S2_rewritten) = 1"
    by blast
  ultimately show ?thesis by simp
qed


section \<open>Range and direction of the envelope counter\<close>

lemma step_envelope_loop_frame:
  "step_envelope_loop m i x rs d dt e = (d', dt', e') \<Longrightarrow>
     state e' = state e \<and> envelope_counter e' = envelope_counter e \<and> attack e' = attack e
     \<and> decay e' = decay e \<and> sustain e' = sustain e \<and> release e' = release e
     \<and> gate e' = gate e"
proof (induction m i x rs d dt e rule: step_envelope_loop.induct)
  case (1 m i x rs d dt e)
  from "1.prems" show ?case
    apply (subst (asm) step_envelope_loop.simps)
    using "1.IH"
    apply (auto split: if_splits)
    done
qed

lemma step_envelope_loop_delta:
  "0 \<le> d \<Longrightarrow> m = 0 \<or> d < m \<Longrightarrow> step_envelope_loop m i x rs d dt e = (d', dt', e') \<Longrightarrow>
     d \<le> d' \<and> (m = 0 \<longrightarrow> d' = d) \<and> (0 < m \<longrightarrow> d' \<le> m)"
proof (induction m i x rs d dt e rule: step_envelope_loop.induct)
  case (1 m i x rs d dt e)
  from "1.prems"(3) show ?case
    apply (subst (asm) step_envelope_loop.simps)
    using "1.prems"(1,2) "1.IH"
    apply (auto split: if_splits)
    done
qed

lemma step_envelope_frame:
  "step_envelope m i x dt e = (d', dt', e') \<Longrightarrow>
     state e' = state e \<and> envelope_counter e' = envelope_counter e \<and> attack e' = attack e
     \<and> decay e' = decay e \<and> sustain e' = sustain e \<and> release e' = release e
     \<and> gate e' = gate e"
  unfolding step_envelope_def Let_def by (rule step_envelope_loop_frame)

lemma step_envelope_delta:
  "0 \<le> m \<Longrightarrow> step_envelope m i x dt e = (d', dt', e') \<Longrightarrow> 0 \<le> d' \<and> d' \<le> m"
proof -
  assume m: "0 \<le> m" and eq: "step_envelope m i x dt e = (d', dt', e')"
  define rs where "rs = (if rate_counter e < rate_counter_period ! unat i
      then rate_counter_period ! unat i - rate_counter e
      else 0x8000 + rate_counter_period ! unat i - rate_counter e)"
  from eq have "step_envelope_loop m i x rs 0 dt e = (d', dt', e')"
    by (simp add: step_envelope_def Let_def rs_def)
  moreover from m have "m = 0 \<or> 0 < m" by arith
  ultimately have "0 \<le> d' \<and> (m = 0 \<longrightarrow> d' = 0) \<and> (0 < m \<longrightarrow> d' \<le> m)"
    using step_envelope_loop_delta [of 0 m i x rs dt e d' dt' e'] by simp
  with m show ?thesis by auto
qed


lemma decay_sustain_loop_down:
  "env_ok e \<Longrightarrow>
     env_ok (decay_sustain_loop dt e)
     \<and> envelope_counter (decay_sustain_loop dt e) \<le> envelope_counter e
     \<and> state (decay_sustain_loop dt e) = state e"
proof (induction dt e rule: decay_sustain_loop.induct)
  case (1 dt e)
  show ?case
  proof (cases "dt = 0")
    case True
    with "1.prems" show ?thesis by simp
  next
    case False
    let ?seg = "exponential_counter_segment ! nat (envelope_counter e)"
    let ?lev = "exponential_counter_level ! ?seg"
    let ?minl = "if ?lev < sustain_level ! unat (sustain e)
                 then sustain_level ! unat (sustain e) else ?lev"
    let ?diff = "envelope_counter e - ?minl"
    let ?dmax = "if ?diff < 0 then envelope_counter e else ?diff"
    obtain de dt' e' where st: "step_envelope ?dmax (decay e) ?seg dt e = (de, dt', e')"
      by (cases "step_envelope ?dmax (decay e) ?seg dt e") auto
    have n: "nat (envelope_counter e) < 256" using "1.prems" by (auto simp: env_ok_def)
    have ml: "0 \<le> ?minl"
      using level_of_segment [OF n] sustain_level_nonneg [of "sustain e"] by simp
    have dm: "0 \<le> ?dmax" "?dmax \<le> envelope_counter e"
      using ml "1.prems" by (auto simp: env_ok_def)
    from step_envelope_delta [OF dm(1) st] have de: "0 \<le> de" "de \<le> ?dmax" by simp_all
    from step_envelope_frame [OF st] have fr: "envelope_counter e' = envelope_counter e"
      "state e' = state e" by simp_all
    let ?next = "e'\<lparr>envelope_counter := envelope_counter e' - de\<rparr>"
    have ok1: "env_ok ?next" using de dm fr "1.prems" by (simp add: env_ok_def)
    have unf: "decay_sustain_loop dt e = decay_sustain_loop dt' ?next"
      by (subst decay_sustain_loop.simps) (simp only: Let_def st prod.case False if_False)
    from "1.IH" [OF False refl refl refl refl refl st [symmetric] refl ok1]
    show ?thesis unfolding unf using de dm fr by simp
  qed
qed

lemma release_loop_down:
  "env_ok e \<Longrightarrow>
     env_ok (release_loop dt e)
     \<and> envelope_counter (release_loop dt e) \<le> envelope_counter e
     \<and> state (release_loop dt e) = state e"
proof (induction dt e rule: release_loop.induct)
  case (1 dt e)
  show ?case
  proof (cases "dt = 0")
    case True
    with "1.prems" show ?thesis by simp
  next
    case False
    let ?seg = "exponential_counter_segment ! nat (envelope_counter e)"
    let ?lev = "exponential_counter_level ! ?seg"
    let ?dmax = "envelope_counter e - ?lev"
    obtain de dt' e' where st: "step_envelope ?dmax (release e) ?seg dt e = (de, dt', e')"
      by (cases "step_envelope ?dmax (release e) ?seg dt e") auto
    have n: "nat (envelope_counter e) < 256" using "1.prems" by (auto simp: env_ok_def)
    have ml: "0 \<le> ?lev" "?lev \<le> envelope_counter e"
      using level_of_segment [OF n] "1.prems" by (simp_all add: env_ok_def)
    have dm: "0 \<le> ?dmax" "?dmax \<le> envelope_counter e" using ml by simp_all
    from step_envelope_delta [OF dm(1) st] have de: "0 \<le> de" "de \<le> ?dmax" by simp_all
    from step_envelope_frame [OF st] have fr: "envelope_counter e' = envelope_counter e"
      "state e' = state e" by simp_all
    let ?next = "e'\<lparr>envelope_counter := envelope_counter e' - de\<rparr>"
    have ok1: "env_ok ?next" using de dm fr "1.prems" by (simp add: env_ok_def)
    have unf: "release_loop dt e = release_loop dt' ?next"
      by (subst release_loop.simps) (simp only: Let_def st prod.case False if_False)
    from "1.IH" [OF False refl refl refl st [symmetric] refl ok1]
    show ?thesis unfolding unf using de dm fr by simp
  qed
qed


lemma env_clock_facts:
  assumes "env_ok e"
  shows "env_ok (env_clock dt e)
       \<and> (state (env_clock dt e) = ATTACK
            \<longrightarrow> state e = ATTACK \<and> envelope_counter e \<le> envelope_counter (env_clock dt e))
       \<and> (state e = RELEASE
            \<longrightarrow> state (env_clock dt e) = RELEASE
              \<and> envelope_counter (env_clock dt e) \<le> envelope_counter e)"
proof (cases "state e")
  case ATTACK
  obtain de dt' e' where
    st: "step_envelope (0xff - envelope_counter e) (attack e) 0 dt e = (de, dt', e')"
    by (cases "step_envelope (0xff - envelope_counter e) (attack e) 0 dt e") auto
  have m: "0 \<le> 0xff - envelope_counter e" using assms by (simp add: env_ok_def)
  from step_envelope_delta [OF m st] have de: "0 \<le> de" "de \<le> 0xff - envelope_counter e"
    by simp_all
  from step_envelope_frame [OF st] have fr: "envelope_counter e' = envelope_counter e"
    "state e' = state e" by simp_all
  let ?next = "e'\<lparr>envelope_counter := envelope_counter e' + de\<rparr>"
  have ok1: "env_ok ?next" using de fr assms by (simp add: env_ok_def)
  show ?thesis
  proof (cases "envelope_counter ?next = 0xff")
    case True
    have "env_ok (?next\<lparr>state := DECAY_SUSTAIN\<rparr>)" using ok1 by (simp add: env_ok_def)
    from decay_sustain_loop_down [OF this, of dt'] True ATTACK st show ?thesis
      by (simp add: env_clock_def Let_def)
  next
    case False
    with ATTACK st ok1 de fr show ?thesis by (simp add: env_clock_def Let_def)
  qed
next
  case DECAY_SUSTAIN
  with decay_sustain_loop_down [OF assms, of dt] show ?thesis by (simp add: env_clock_def)
next
  case RELEASE
  with release_loop_down [OF assms, of dt] show ?thesis by (simp add: env_clock_def)
qed

lemma env_clock_step_ok: "env_ok e \<Longrightarrow> env_step_ok e (env_clock dt e)"
  using env_clock_facts [of e dt] by (simp add: env_step_ok_def)


lemma env_windows_facts:
  "env_ok e \<Longrightarrow>
     env_ok (env_windows f d e)
     \<and> (state (env_windows f d e) = ATTACK
          \<longrightarrow> state e = ATTACK \<and> envelope_counter e \<le> envelope_counter (env_windows f d e))
     \<and> (state e = RELEASE
          \<longrightarrow> state (env_windows f d e) = RELEASE
            \<and> envelope_counter (env_windows f d e) \<le> envelope_counter e)"
proof (induction f d e rule: env_windows.induct)
  case (1 f d e)
  show ?case
  proof (cases "d > 0")
    case True
    define w where "w = (if d < f then d else f)"
    define e1 where "e1 = env_clock w e"
    have c: "env_ok e1"
      "state e1 = ATTACK \<Longrightarrow> state e = ATTACK \<and> envelope_counter e \<le> envelope_counter e1"
      "state e = RELEASE \<Longrightarrow> state e1 = RELEASE \<and> envelope_counter e1 \<le> envelope_counter e"
      using env_clock_facts [OF "1.prems", of w] unfolding e1_def by blast+
    show ?thesis
    proof (cases "w \<le> 0")
      case stop: True
      have "env_windows f d e = e1"
        using True stop unfolding e1_def w_def
        by (subst env_windows.simps) (simp add: Let_def)
      with c show ?thesis by simp
    next
      case False
      have unf: "env_windows f d e = env_windows w (d - w) e1"
        using True False unfolding e1_def w_def
        by (subst env_windows.simps) (simp add: Let_def)
      define e2 where "e2 = env_windows w (d - w) e1"
      have i: "env_ok e2"
        "state e2 = ATTACK \<Longrightarrow> state e1 = ATTACK \<and> envelope_counter e1 \<le> envelope_counter e2"
        "state e1 = RELEASE \<Longrightarrow> state e2 = RELEASE \<and> envelope_counter e2 \<le> envelope_counter e1"
        using "1.IH" [OF True w_def False c(1) [unfolded e1_def]]
        unfolding e2_def e1_def by blast+
      have "env_ok e2
          \<and> (state e2 = ATTACK \<longrightarrow> state e = ATTACK \<and> envelope_counter e \<le> envelope_counter e2)
          \<and> (state e = RELEASE \<longrightarrow> state e2 = RELEASE \<and> envelope_counter e2 \<le> envelope_counter e)"
        using c i by (metis order_trans)
      then show ?thesis unfolding unf e2_def .
    qed
  next
    case False
    with "1.prems" show ?thesis by (simp add: env_windows.simps)
  qed
qed


lemma env_windows_step_ok: "env_ok e \<Longrightarrow> env_step_ok e (env_windows f d e)"
  using env_windows_facts [of e f d] by (simp add: env_step_ok_def)

lemma env_apply_ok: "env_ok e \<Longrightarrow> env_ok (env_apply e op)"
proof (cases op)
  case (EnvClock d)
  assume "env_ok e"
  from env_clock_facts [OF this, of d] EnvClock show ?thesis by simp
qed (simp_all add: env_ok_def env_writeCONTROL_REG_def writeATTACK_DECAY_def
       writeSUSTAIN_RELEASE_def Let_def)

lemma env_run_ok: "env_ok e \<Longrightarrow> env_ok (foldl env_apply e ops)"
  by (induction ops arbitrary: e) (simp_all add: env_apply_ok)

lemma SID_clock_step_ok:
  "(env_ok (envelope (voice1 s))
      \<longrightarrow> env_step_ok (envelope (voice1 s)) (envelope (voice1 (SID_clock fc vo d s))))
   \<and> (env_ok (envelope (voice2 s))
      \<longrightarrow> env_step_ok (envelope (voice2 s)) (envelope (voice2 (SID_clock fc vo d s))))
   \<and> (env_ok (envelope (voice3 s))
      \<longrightarrow> env_step_ok (envelope (voice3 s)) (envelope (voice3 (SID_clock fc vo d s))))"
proof (cases "d = 0")
  case True
  then show ?thesis by (simp add: SID_clock_def env_step_ok_def)
next
  case False
  from SID_clock_envelope [OF False, of fc vo s] show ?thesis
    by (simp add: env_windows_step_ok)
qed

lemma rate_counter_period_ge: "9 \<le> rate_counter_period ! unat (i :: 4 word)"
proof -
  have "unat i < 16" using unsigned_less [of i] by simp
  moreover have "\<forall>n < 16. 9 \<le> rate_counter_period ! n"
    by (simp add: rate_counter_period_def All_less_Suc numeral_eq_Suc)
  ultimately show ?thesis by blast
qed

lemma step_envelope_loop_rest:
  "0 < rs \<Longrightarrow> 0 \<le> dt \<Longrightarrow> step_envelope_loop m i x rs d dt e = (d', dt', e')
   \<Longrightarrow> dt' = 0 \<or> (rate_counter e' = 0 \<and> 0 < dt' \<and> dt' < dt)"
proof (induction m i x rs d dt e rule: step_envelope_loop.induct)
  case (1 m i x rs d dt e)
  from "1.prems"(3) show ?case
    apply (subst (asm) step_envelope_loop.simps)
    using "1.prems"(1,2) "1.IH" rate_counter_period_pos [of i]
    apply (auto simp: Let_def split: if_splits)
    done
qed

lemma step_envelope_rest:
  assumes "good_rc e" "0 \<le> dt" "step_envelope m i x dt e = (d', dt', e')"
  shows "dt' = 0 \<or> (rate_counter e' = 0 \<and> 0 < dt' \<and> dt' < dt)"
proof -
  let ?p = "rate_counter_period ! unat i"
  let ?rs = "if rate_counter e < ?p then ?p - rate_counter e else 0x8000 + ?p - rate_counter e"
  have "0 < ?rs" using assms(1) rate_counter_period_pos [of i] by (auto simp: good_rc_def)
  moreover have "step_envelope_loop m i x ?rs 0 dt e = (d', dt', e')"
    using assms(3) by (simp add: step_envelope_def Let_def)
  ultimately show ?thesis using assms(2) step_envelope_loop_rest by blast
qed

lemma decay_sustain_loop_short:
  assumes "rate_counter e = 0" "0 < dt" "dt < 9"
  shows "envelope_counter (decay_sustain_loop dt e) = envelope_counter e"
proof -
  have "dt < rate_counter_period ! unat (decay e)" "0 < rate_counter_period ! unat (decay e)"
    using rate_counter_period_ge [of "decay e"] assms by simp_all
  with assms show ?thesis
    by (simp add: decay_sustain_loop.simps [of dt] step_envelope_def Let_def
          step_envelope_loop.simps [of _ _ _ _ _ dt])
qed

lemma attack_short_clock:
  assumes "state e = ATTACK" "good_rc e" "env_ok e" "0 \<le> dt" "dt \<le> 8"
  shows "envelope_counter e \<le> envelope_counter (env_clock dt e)"
proof -
  obtain de dt' e' where
    st: "step_envelope (0xff - envelope_counter e) (attack e) 0 dt e = (de, dt', e')"
    by (cases "step_envelope (0xff - envelope_counter e) (attack e) 0 dt e") auto
  have m: "0 \<le> 0xff - envelope_counter e" using assms(3) by (simp add: env_ok_def)
  from step_envelope_delta [OF m st] have de: "0 \<le> de" by simp
  from step_envelope_frame [OF st] have fr: "envelope_counter e' = envelope_counter e" by simp
  let ?next = "e'\<lparr>envelope_counter := envelope_counter e' + de\<rparr>"
  show ?thesis
  proof (cases "envelope_counter ?next = 0xff")
    case True
    have le: "envelope_counter e \<le> 0xff" using assms(3) by (simp add: env_ok_def)
    from step_envelope_rest [OF assms(2,4) st]
    have "envelope_counter (decay_sustain_loop dt' (?next\<lparr>state := DECAY_SUSTAIN\<rparr>)) = 0xff"
    proof
      assume "dt' = 0"
      with True show ?thesis by simp
    next
      assume r: "rate_counter e' = 0 \<and> 0 < dt' \<and> dt' < dt"
      then have "envelope_counter (decay_sustain_loop dt' (?next\<lparr>state := DECAY_SUSTAIN\<rparr>))
          = envelope_counter (?next\<lparr>state := DECAY_SUSTAIN\<rparr>)"
        using assms(5) by (intro decay_sustain_loop_short) auto
      with True show ?thesis by simp
    qed
    with True assms(1) st le show ?thesis by (simp add: env_clock_def Let_def)
  next
    case False
    with assms(1) st de fr show ?thesis by (simp add: env_clock_def Let_def)
  qed
qed


lemma decay_sustain_loop_good: "good_rc e \<Longrightarrow> good_rc (decay_sustain_loop dt e)"
proof (induction dt e rule: decay_sustain_loop.induct)
  case (1 dt e)
  show ?case
  proof (cases "dt = 0")
    case True
    with "1.prems" show ?thesis by simp
  next
    case False
    let ?seg = "exponential_counter_segment ! nat (envelope_counter e)"
    let ?lev = "exponential_counter_level ! ?seg"
    let ?minl = "if ?lev < sustain_level ! unat (sustain e)
                 then sustain_level ! unat (sustain e) else ?lev"
    let ?diff = "envelope_counter e - ?minl"
    let ?dmax = "if ?diff < 0 then envelope_counter e else ?diff"
    obtain de dt' e' where st: "step_envelope ?dmax (decay e) ?seg dt e = (de, dt', e')"
      by (cases "step_envelope ?dmax (decay e) ?seg dt e") auto
    let ?next = "e'\<lparr>envelope_counter := envelope_counter e' - de\<rparr>"
    have ok1: "good_rc ?next" using step_envelope_good [OF False st] by simp
    have unf: "decay_sustain_loop dt e = decay_sustain_loop dt' ?next"
      by (subst decay_sustain_loop.simps) (simp only: Let_def st prod.case False if_False)
    from "1.IH" [OF False refl refl refl refl refl st [symmetric] refl ok1]
    show ?thesis unfolding unf .
  qed
qed

lemma release_loop_good: "good_rc e \<Longrightarrow> good_rc (release_loop dt e)"
proof (induction dt e rule: release_loop.induct)
  case (1 dt e)
  show ?case
  proof (cases "dt = 0")
    case True
    with "1.prems" show ?thesis by simp
  next
    case False
    let ?seg = "exponential_counter_segment ! nat (envelope_counter e)"
    let ?lev = "exponential_counter_level ! ?seg"
    let ?dmax = "envelope_counter e - ?lev"
    obtain de dt' e' where st: "step_envelope ?dmax (release e) ?seg dt e = (de, dt', e')"
      by (cases "step_envelope ?dmax (release e) ?seg dt e") auto
    let ?next = "e'\<lparr>envelope_counter := envelope_counter e' - de\<rparr>"
    have ok1: "good_rc ?next" using step_envelope_good [OF False st] by simp
    have unf: "release_loop dt e = release_loop dt' ?next"
      by (subst release_loop.simps) (simp only: Let_def st prod.case False if_False)
    from "1.IH" [OF False refl refl refl st [symmetric] refl ok1]
    show ?thesis unfolding unf .
  qed
qed

lemma env_clock_good: "good_rc e \<Longrightarrow> good_rc (env_clock dt e)"
proof (cases "state e")
  case ATTACK
  assume g: "good_rc e"
  obtain de dt' e' where
    st: "step_envelope (0xff - envelope_counter e) (attack e) 0 dt e = (de, dt', e')"
    by (cases "step_envelope (0xff - envelope_counter e) (attack e) 0 dt e") auto
  have g1: "good_rc e'"
  proof (cases "dt = 0")
    case True
    with st g show ?thesis by (simp add: step_envelope_def Let_def)
  next
    case False
    then show ?thesis using st by (rule step_envelope_good)
  qed
  let ?next = "e'\<lparr>envelope_counter := envelope_counter e' + de\<rparr>"
  show ?thesis
  proof (cases "envelope_counter ?next = 0xff")
    case True
    have "good_rc (?next\<lparr>state := DECAY_SUSTAIN\<rparr>)" using g1 by (simp add: good_rc_def)
    from decay_sustain_loop_good [OF this, of dt'] True ATTACK st show ?thesis
      by (simp add: env_clock_def Let_def)
  next
    case False
    with g1 ATTACK st show ?thesis by (simp add: env_clock_def Let_def)
  qed
next
  case DECAY_SUSTAIN
  assume "good_rc e"
  with DECAY_SUSTAIN decay_sustain_loop_good [of e dt] show ?thesis by (simp add: env_clock_def)
next
  case RELEASE
  assume "good_rc e"
  with RELEASE release_loop_good [of e dt] show ?thesis by (simp add: env_clock_def)
qed

lemma env_apply_good: "good_rc e \<Longrightarrow> good_rc (env_apply e op)"
proof (cases op)
  case (EnvClock d)
  assume "good_rc e"
  from env_clock_good [OF this, of d] EnvClock show ?thesis by simp
qed (simp_all add: good_rc_def env_writeCONTROL_REG_def writeATTACK_DECAY_def
       writeSUSTAIN_RELEASE_def Let_def)

lemma env_run_good: "good_rc e \<Longrightarrow> good_rc (foldl env_apply e ops)"
  by (induction ops arbitrary: e) (simp_all add: env_apply_good)

lemma S2_attack_254_eq: "S2_attack_254 = \<lparr>rate_counter = 0, exponential_counter = 0,
   envelope_counter = 254, attack = 0, decay = 0, sustain = 0, release = 0, gate = True,
   state = ATTACK\<rparr>"
  unfolding S2_attack_254_def S2_gate_on_eq by (simp add: env_eval)

text \<open>
  The attack part speaks of clock steps that end in the attack state: once the counter
  reaches 0xff, \<open>clock\<close> goes on in the decay state within the same call, with the cycles
  that are left. A generator in the attack state with counter 254 that is clocked for 100
  cycles reaches 0xff after 9 cycles and ends in the decay state at 245.
\<close>

lemma attack_then_decay_within_one_clock:
  "state S2_attack_254 = ATTACK
   \<and> envelope_counter S2_attack_254 = 254
   \<and> envelope_counter (env_clock 100 S2_attack_254) = 245
   \<and> envelope_counter (env_windows 8 100 S2_attack_254) = 245
   \<and> state (env_clock 100 S2_attack_254) = DECAY_SUSTAIN"
  unfolding S2_attack_254_eq by (simp add: env_eval)

text \<open>
  Claim C4. For an envelope counter in the range 0 to 0xff, every clock step, of any
  length, alone or in the windows of \<open>SID::clock\<close>, leaves the counter in that range; so
  does every sequence of register writes and clock steps after a reset, which also keeps
  the rate counter inside its 15 bits. Across a clock step in the attack state, that is
  one that begins and ends there, the counter does not decrease; a clock step of at most
  8 cycles (the windows of \<open>SID::clock\<close>) that begins in the attack state does not lower
  the counter even when it ends in the decay state. A clock step that begins in the
  release state ends in the release state and does not raise the counter.
\<close>

theorem envelope_counter_range_and_direction:
  assumes "0 \<le> envelope_counter e" "envelope_counter e \<le> 0xff"
  shows "env_step_ok e (env_clock delta_t e)
       \<and> env_step_ok e (env_windows f delta_t e)
       \<and> (state e = ATTACK \<and> 0 \<le> rate_counter e \<and> rate_counter e \<le> 0x7fff
            \<and> 0 \<le> delta_t \<and> delta_t \<le> 8
          \<longrightarrow> envelope_counter e \<le> envelope_counter (env_clock delta_t e))
       \<and> env_ok (foldl env_apply (env_reset e0) ops)
       \<and> 0 \<le> rate_counter (foldl env_apply (env_reset e0) ops)
       \<and> rate_counter (foldl env_apply (env_reset e0) ops) \<le> 0x7fff
       \<and> (env_ok (envelope (voice1 s))
            \<longrightarrow> env_step_ok (envelope (voice1 s)) (envelope (voice1 (SID_clock fc vo d s))))
       \<and> (env_ok (envelope (voice2 s))
            \<longrightarrow> env_step_ok (envelope (voice2 s)) (envelope (voice2 (SID_clock fc vo d s))))
       \<and> (env_ok (envelope (voice3 s))
            \<longrightarrow> env_step_ok (envelope (voice3 s)) (envelope (voice3 (SID_clock fc vo d s))))"
proof -
  from assms have ok: "env_ok e" by (simp add: env_ok_def)
  have "env_ok (env_reset e0)" by (simp add: env_ok_def env_reset_def)
  then have r: "env_ok (foldl env_apply (env_reset e0) ops)" by (rule env_run_ok)
  have "good_rc (env_reset e0)" by (simp add: good_rc_def env_reset_def)
  then have "good_rc (foldl env_apply (env_reset e0) ops)" by (rule env_run_good)
  then have g: "0 \<le> rate_counter (foldl env_apply (env_reset e0) ops)"
    "rate_counter (foldl env_apply (env_reset e0) ops) \<le> 0x7fff"
    by (simp_all add: good_rc_def)
  have a: "state e = ATTACK \<and> 0 \<le> rate_counter e \<and> rate_counter e \<le> 0x7fff
            \<and> 0 \<le> delta_t \<and> delta_t \<le> 8
          \<longrightarrow> envelope_counter e \<le> envelope_counter (env_clock delta_t e)"
    using attack_short_clock [of e delta_t] ok by (simp add: good_rc_def)
  from r g a env_clock_step_ok [OF ok] env_windows_step_ok [OF ok]
    SID_clock_step_ok [of s fc vo d]
  show ?thesis by blast
qed

theorem envelope_counter_range_and_direction_witness:
  "state S2_gate_on = ATTACK \<and> envelope_counter S2_gate_on = 0
   \<and> state (env_clock 20 S2_gate_on) = ATTACK
   \<and> envelope_counter (env_clock 20 S2_gate_on) = 2
   \<and> envelope_counter S2_gate_on \<le> envelope_counter (env_clock 20 S2_gate_on)
   \<and> state (env_writeCONTROL_REG 0 S2_attack_254) = RELEASE
   \<and> envelope_counter (env_writeCONTROL_REG 0 S2_attack_254) = 254
   \<and> envelope_counter (env_clock 100 (env_writeCONTROL_REG 0 S2_attack_254)) = 243
   \<and> envelope_counter (env_clock 100 (env_writeCONTROL_REG 0 S2_attack_254))
       \<le> envelope_counter (env_writeCONTROL_REG 0 S2_attack_254)
   \<and> state (env_clock 5 S2_attack_254) = ATTACK
   \<and> envelope_counter (env_clock 5 S2_attack_254) = 254
   \<and> rate_counter (env_clock 5 S2_attack_254) = 5
   \<and> envelope_counter (env_clock 8 (env_clock 5 S2_attack_254)) = 255
   \<and> envelope_counter (env_clock 5 S2_attack_254)
       \<le> envelope_counter (env_clock 8 (env_clock 5 S2_attack_254))
   \<and> 0 \<le> envelope_counter (env_clock 100 S2_attack_254)
   \<and> envelope_counter (env_clock 100 S2_attack_254) \<le> 0xff"
proof -
  let ?r = "env_writeCONTROL_REG 0 S2_attack_254"
  let ?b = "env_clock 5 S2_attack_254"
  have ga: "state S2_gate_on = ATTACK" "envelope_counter S2_gate_on = 0"
    "state (env_clock 20 S2_gate_on) = ATTACK" "envelope_counter (env_clock 20 S2_gate_on) = 2"
    unfolding S2_gate_on_eq by (simp_all add: env_eval)
  have re: "?r = \<lparr>rate_counter = 0, exponential_counter = 0,
     envelope_counter = 254, attack = 0, decay = 0, sustain = 0, release = 0, gate = False,
     state = RELEASE\<rparr>"
    unfolding S2_attack_254_eq by (simp add: env_writeCONTROL_REG_def Let_def)
  have rl: "state ?r = RELEASE" "envelope_counter ?r = 254"
    "envelope_counter (env_clock 100 ?r) = 243"
    unfolding re by (simp_all add: env_eval)
  have be: "?b = \<lparr>rate_counter = 5, exponential_counter = 0,
     envelope_counter = 254, attack = 0, decay = 0, sustain = 0, release = 0, gate = True,
     state = ATTACK\<rparr>"
    unfolding S2_attack_254_eq by (simp add: env_eval)
  have bl: "state ?b = ATTACK" "envelope_counter ?b = 254" "rate_counter ?b = 5"
    "envelope_counter (env_clock 8 ?b) = 255"
    unfolding be by (simp_all add: env_eval)
  have h: "0 \<le> envelope_counter S2_attack_254" "envelope_counter S2_attack_254 \<le> 0xff"
    unfolding S2_attack_254_eq by simp_all
  have t1: "envelope_counter S2_gate_on \<le> envelope_counter (env_clock 20 S2_gate_on)"
    using envelope_counter_range_and_direction [of S2_gate_on 20] ga
    by (simp add: env_step_ok_def)
  have t2: "envelope_counter (env_clock 100 ?r) \<le> envelope_counter ?r"
    using envelope_counter_range_and_direction [of ?r 100] rl(1,2)
    by (simp add: env_step_ok_def)
  have t3: "envelope_counter ?b \<le> envelope_counter (env_clock 8 ?b)"
    using envelope_counter_range_and_direction [of ?b 8] bl(1,2,3) by simp
  have t4: "0 \<le> envelope_counter (env_clock 100 S2_attack_254)
      \<and> envelope_counter (env_clock 100 S2_attack_254) \<le> 0xff"
    using envelope_counter_range_and_direction [OF h, of 100]
    by (simp add: env_step_ok_def env_ok_def)
  from ga rl bl t1 t2 t3 t4 show ?thesis by blast
qed


section \<open>Two calls of clock against one\<close>

















end
